theory Spec2Isabelle
  imports Complex_Main
begin

section \<open>Token model (include/token.h)\<close>

datatype TokenType =
    ROOM | ITEM | VAR | FUNCTION | IF | ELSE | WHILE | FOR | RETURN | WHEN | ENTERED
  | SAY | GOTO | TRUE | FALSE | NOT | AND | OR
  | IDENTIFIER | STRING | NUMBER
  | PLUS | MINUS | MULTIPLY | DIVIDE | MODULO | ASSIGN | EQ | NEQ | LT | GT | LTE | GTE
  | LPAREN | RPAREN | LBRACE | RBRACE | COLON | COMMA | SEMICOLON | DOT
  | EOF_TOKEN | UNKNOWN | COMMENT

text \<open>
  \<^verbatim>\<open>struct Token { TokenType type; std::string lexeme; int line; int column; }\<close>,
  built by \<^verbatim>\<open>Token(type, lexeme, line, column)\<close>.  The two \<^verbatim>\<open>int\<close> fields are
  modelled as unbounded integers: the counters are only ever incremented, once per
  character read, so the model agrees with the program on every source shorter than
  \<open>2^31\<close> characters (beyond that the C++ behaviour is undefined).
\<close>

datatype Token = Token (type: TokenType) (lexeme: string) (line: int) (column: int)

datatype SourceLocation =
  SourceLocation (loc_filename: string) (loc_line: int) (loc_column: int)

section \<open>Lexer (include/lexer.h, src/lexer.cpp)\<close>

text \<open>The private state of the class; \<open>cur_line\<close> and \<open>cur_column\<close> are the fields
  \<^verbatim>\<open>line\<close> and \<^verbatim>\<open>column\<close>.\<close>

record Lexer =
  source :: string
  filename :: string
  position :: nat
  start :: nat
  cur_line :: int
  cur_column :: int

definition Lexer_keywords :: "string \<Rightarrow> TokenType option" where
  "Lexer_keywords = map_of
     [(''room'', ROOM), (''item'', ITEM), (''var'', VAR), (''function'', FUNCTION),
      (''if'', IF), (''else'', ELSE), (''while'', WHILE), (''for'', FOR),
      (''return'', RETURN), (''when'', WHEN), (''entered'', ENTERED), (''say'', SAY),
      (''goto'', GOTO), (''true'', TRUE), (''false'', FALSE), (''not'', NOT),
      (''and'', AND), (''or'', OR)]"

text \<open>The constructor, with the in-class initialisers of the header.\<close>

definition new_Lexer :: "string \<Rightarrow> string \<Rightarrow> Lexer" where
  "new_Lexer src fname =
     \<lparr>source = src, filename = fname, position = 0, start = 0, cur_line = 1, cur_column = 1\<rparr>"

text \<open>The classification functions of \<^verbatim>\<open><cctype>\<close> in the C locale.\<close>

definition isdigit :: "char \<Rightarrow> bool" where
  "isdigit c = (let n = (of_char c :: nat) in 48 \<le> n \<and> n \<le> 57)"

definition isalpha :: "char \<Rightarrow> bool" where
  "isalpha c = (let n = (of_char c :: nat) in (65 \<le> n \<and> n \<le> 90) \<or> (97 \<le> n \<and> n \<le> 122))"

definition isalnum :: "char \<Rightarrow> bool" where
  "isalnum c = (isalpha c \<or> isdigit c)"

definition isAtEnd :: "Lexer \<Rightarrow> bool" where
  "isAtEnd lx = (position lx \<ge> length (source lx))"

text \<open>\<^verbatim>\<open>source[i]\<close>: the character at \<open>i\<close>, and the terminating NUL at \<open>i = size\<close>.\<close>

definition char_at :: "string \<Rightarrow> nat \<Rightarrow> char" where
  "char_at s i = (if i < length s then s ! i else CHR 0x00)"

definition Lexer_advance :: "Lexer \<Rightarrow> char \<times> Lexer" where
  "Lexer_advance lx =
     (let lx' = lx\<lparr>position := position lx + 1, cur_column := cur_column lx + 1\<rparr>
      in (char_at (source lx') (position lx' - 1), lx'))"

definition peek :: "Lexer \<Rightarrow> char" where
  "peek lx = (if isAtEnd lx then CHR 0x00 else char_at (source lx) (position lx))"

definition peekNext :: "Lexer \<Rightarrow> char" where
  "peekNext lx =
     (if position lx + 1 \<ge> length (source lx) then CHR 0x00
      else char_at (source lx) (position lx + 1))"

definition Lexer_match :: "char \<Rightarrow> Lexer \<Rightarrow> bool \<times> Lexer" where
  "Lexer_match expected lx =
     (if isAtEnd lx \<or> char_at (source lx) (position lx) \<noteq> expected then (False, lx)
      else (True, lx\<lparr>position := position lx + 1, cur_column := cur_column lx + 1\<rparr>))"

text \<open>\<^verbatim>\<open>std::string::substr(pos, n)\<close> for \<open>pos \<le> size\<close>.\<close>

definition substr :: "string \<Rightarrow> nat \<Rightarrow> nat \<Rightarrow> string" where
  "substr s pos n = take n (drop pos s)"

definition makeToken :: "TokenType \<Rightarrow> Lexer \<Rightarrow> Token" where
  "makeToken ty lx =
     (let lexeme = substr (source lx) (start lx) (position lx - start lx)
      in Token ty lexeme (cur_line lx) (cur_column lx - int (length lexeme)))"

definition errorToken :: "string \<Rightarrow> Lexer \<Rightarrow> Token" where
  "errorToken message lx = Token UNKNOWN message (cur_line lx) (cur_column lx)"

definition getCurrentLocation :: "Lexer \<Rightarrow> SourceLocation" where
  "getCurrentLocation lx = SourceLocation (filename lx) (cur_line lx) (cur_column lx)"

function skipWhitespace :: "Lexer \<Rightarrow> Lexer" where
  "skipWhitespace lx =
     (let c = peek lx in
      if c = CHR '' '' \<or> c = CHR 0x0D \<or> c = CHR 0x09 then skipWhitespace (snd (Lexer_advance lx))
      else if c = CHR 0x0A then
        skipWhitespace (snd (Lexer_advance (lx\<lparr>cur_line := cur_line lx + 1, cur_column := 1\<rparr>)))
      else lx)"
  by pat_completeness auto
termination
  by (relation "measure (\<lambda>lx. length (source lx) - position lx)")
     (auto simp: peek_def Lexer_advance_def isAtEnd_def split: if_splits)

declare skipWhitespace.simps [simp del]


text \<open>\<^verbatim>\<open>identifier()\<close> (\<open>identifier\<close> is reserved in Isabelle, hence the prefix): the
  loop, then the keyword lookup on the text read.\<close>

function lex_identifier :: "Lexer \<Rightarrow> Token \<times> Lexer" where
  "lex_identifier lx =
     (if isalnum (peek lx) \<or> peek lx = CHR ''_'' then lex_identifier (snd (Lexer_advance lx))
      else
        (let text = substr (source lx) (start lx) (position lx - start lx);
             ty = (case Lexer_keywords text of Some k \<Rightarrow> k | None \<Rightarrow> IDENTIFIER)
         in (makeToken ty lx, lx)))"
  by pat_completeness auto
termination
  by (relation "measure (\<lambda>lx. length (source lx) - position lx)")
     (auto simp: peek_def Lexer_advance_def isAtEnd_def isalnum_def isalpha_def isdigit_def
           split: if_splits)

declare lex_identifier.simps [simp del]

text \<open>The loop \<^verbatim>\<open>while (isdigit(peek())) advance();\<close>, which \<^verbatim>\<open>number()\<close> runs twice.\<close>

function number_digits :: "Lexer \<Rightarrow> Lexer" where
  "number_digits lx = (if isdigit (peek lx) then number_digits (snd (Lexer_advance lx)) else lx)"
  by pat_completeness auto
termination
  by (relation "measure (\<lambda>lx. length (source lx) - position lx)")
     (auto simp: peek_def Lexer_advance_def isAtEnd_def isdigit_def split: if_splits)

declare number_digits.simps [simp del]

definition number :: "Lexer \<Rightarrow> Token \<times> Lexer" where
  "number lx0 =
     (let lx = number_digits lx0 in
      if peek lx = CHR ''.'' \<and> isdigit (peekNext lx) then
        (let lx = snd (Lexer_advance lx);
             lx = number_digits lx
         in (makeToken NUMBER lx, lx))
      else (makeToken NUMBER lx, lx))"

text \<open>\<^verbatim>\<open>string()\<close> (prefixed, \<open>string\<close> being the type of strings): the loop up to the
  closing quote, then the two exits.\<close>

function lex_string :: "Lexer \<Rightarrow> Token \<times> Lexer" where
  "lex_string lx =
     (if peek lx \<noteq> CHR 0x22 \<and> \<not> isAtEnd lx then
        (let lx = (if peek lx = CHR 0x0A then lx\<lparr>cur_line := cur_line lx + 1, cur_column := 1\<rparr>
                   else lx)
         in lex_string (snd (Lexer_advance lx)))
      else if isAtEnd lx then (errorToken ''Unterminated string.'' lx, lx)
      else (let lx = snd (Lexer_advance lx) in (makeToken STRING lx, lx)))"
  by pat_completeness auto
termination
  by (relation "measure (\<lambda>lx. length (source lx) - position lx)")
     (auto simp: peek_def Lexer_advance_def isAtEnd_def split: if_splits)

declare lex_string.simps [simp del]

text \<open>The loop of the comment case, \<^verbatim>\<open>while (peek() != '\n' && !isAtEnd()) advance();\<close>.\<close>

function skipLineComment :: "Lexer \<Rightarrow> Lexer" where
  "skipLineComment lx =
     (if peek lx \<noteq> CHR 0x0A \<and> \<not> isAtEnd lx then skipLineComment (snd (Lexer_advance lx)) else lx)"
  by pat_completeness auto
termination
  by (relation "measure (\<lambda>lx. length (source lx) - position lx)")
     (auto simp: peek_def Lexer_advance_def isAtEnd_def split: if_splits)

declare skipLineComment.simps [simp del]

lemma skipWhitespace_frame:
  "source (skipWhitespace lx) = source lx \<and> filename (skipWhitespace lx) = filename lx
   \<and> position lx \<le> position (skipWhitespace lx)"
proof (induction lx rule: skipWhitespace.induct)
  case (1 lx)
  show ?case
    using 1 by (subst (1 2 3) skipWhitespace.simps) (auto simp: Let_def Lexer_advance_def)
qed

lemma skipLineComment_frame:
  "source (skipLineComment lx) = source lx \<and> filename (skipLineComment lx) = filename lx
   \<and> position lx \<le> position (skipLineComment lx)"
proof (induction lx rule: skipLineComment.induct)
  case (1 lx)
  show ?case
    using 1 by (subst (1 2 3) skipLineComment.simps) (auto simp: Lexer_advance_def)
qed

function nextToken :: "Lexer \<Rightarrow> Token \<times> Lexer" where
  "nextToken lx0 =
     (let lx = skipWhitespace lx0;
          lx = lx\<lparr>start := position lx\<rparr>
      in if isAtEnd lx then (makeToken EOF_TOKEN lx, lx)
      else
        (let (c, lx) = Lexer_advance lx in
         if isalpha c \<or> c = CHR ''_'' then lex_identifier lx
         else if isdigit c then number lx
         else if c = CHR ''('' then (makeToken LPAREN lx, lx)
         else if c = CHR '')'' then (makeToken RPAREN lx, lx)
         else if c = CHR ''{'' then (makeToken LBRACE lx, lx)
         else if c = CHR ''}'' then (makeToken RBRACE lx, lx)
         else if c = CHR '':'' then (makeToken COLON lx, lx)
         else if c = CHR '','' then (makeToken COMMA lx, lx)
         else if c = CHR '';'' then (makeToken SEMICOLON lx, lx)
         else if c = CHR ''.'' then (makeToken DOT lx, lx)
         else if c = CHR ''+'' then (makeToken PLUS lx, lx)
         else if c = CHR ''-'' then (makeToken MINUS lx, lx)
         else if c = CHR ''*'' then (makeToken MULTIPLY lx, lx)
         else if c = CHR ''/'' then
           (let (m, lx) = Lexer_match (CHR ''/'') lx in
            if m then nextToken (skipLineComment lx)
            else (makeToken DIVIDE lx, lx))
         else if c = CHR ''='' then
           (let (m, lx) = Lexer_match (CHR ''='') lx in (makeToken (if m then EQ else ASSIGN) lx, lx))
         else if c = CHR ''!'' then
           (let (m, lx) = Lexer_match (CHR ''='') lx in (makeToken (if m then NEQ else NOT) lx, lx))
         else if c = CHR ''<'' then
           (let (m, lx) = Lexer_match (CHR ''='') lx in (makeToken (if m then LTE else LT) lx, lx))
         else if c = CHR ''>'' then
           (let (m, lx) = Lexer_match (CHR ''='') lx in (makeToken (if m then GTE else GT) lx, lx))
         else if c = CHR 0x22 then lex_string lx
         else (errorToken ''Unexpected character.'' lx, lx)))"
  by pat_completeness auto
termination
proof (relation "measure (\<lambda>lx. length (source lx) - position lx)", goal_cases)
  case 1
  show ?case by simp
next
  case (2 lx0 lx1 lx2 p c lx3 q m lx4)
  have a: "source lx1 = source lx0" "position lx0 \<le> position lx1"
    using 2(1) skipWhitespace_frame [of lx0] by simp_all
  have b: "source lx2 = source lx0" "position lx2 = position lx1"
    using 2(2) a by simp_all
  have c: "position lx2 < length (source lx0)"
    using 2(3) b by (simp add: isAtEnd_def)
  have d: "source lx3 = source lx0" "position lx3 = position lx2 + 1"
    using 2(4,5) b by (auto simp: Lexer_advance_def Let_def)
  have e: "source lx4 = source lx0" "position lx3 \<le> position lx4"
    using 2 d by (auto simp: Lexer_match_def split: if_splits)
  have f: "source (skipLineComment lx4) = source lx0" "position lx4 \<le> position (skipLineComment lx4)"
    using skipLineComment_frame [of lx4] e by simp_all
  show ?case using a b c d e f by simp
qed

declare nextToken.simps [simp del]

definition peekToken :: "Lexer \<Rightarrow> Token \<times> Lexer" where
  "peekToken lx =
     (let savedPosition = position lx;
          savedStart = start lx;
          savedLine = cur_line lx;
          savedColumn = cur_column lx;
          (token, lx) = nextToken lx;
          lx = lx\<lparr>position := savedPosition\<rparr>;
          lx = lx\<lparr>start := savedStart\<rparr>;
          lx = lx\<lparr>cur_line := savedLine\<rparr>;
          lx = lx\<lparr>cur_column := savedColumn\<rparr>
      in (token, lx))"


section \<open>AST model (include/ast.h)\<close>

text \<open>
  \<^verbatim>\<open>using Value = std::variant<double, std::string, bool>\<close>.  A number is held as the
  exact decimal value of its lexeme; the rounding of that value to a binary64 is not
  modelled.
\<close>

datatype Value = Double rat | Str string | Boolean bool

text \<open>
  An owning pointer \<^verbatim>\<open>std::unique_ptr<Expression>\<close> is an \<open>Expression option\<close>, \<open>None\<close>
  being the null pointer, which the parser does produce.  Every node starts with the
  \<^verbatim>\<open>location\<close> field of \<^verbatim>\<open>ASTNode\<close>.
\<close>

datatype Expression =
    LiteralExpr SourceLocation Value
  | VariableExpr SourceLocation Token
  | BinaryExpr SourceLocation "Expression option" Token "Expression option"
  | UnaryExpr SourceLocation Token "Expression option"
  | CallExpr SourceLocation "Expression option" Token "Expression option list"

fun location :: "Expression \<Rightarrow> SourceLocation" where
  "location (LiteralExpr l _) = l"
| "location (VariableExpr l _) = l"
| "location (BinaryExpr l _ _ _) = l"
| "location (UnaryExpr l _ _) = l"
| "location (CallExpr l _ _ _) = l"

text \<open>
  Statement pointers are never null where the parser builds them (every statement
  function returns a fresh node), so a statement child is a \<open>Statement\<close>; the optional
  \<^verbatim>\<open>elseBranch\<close> is an option.  The \<^verbatim>\<open>std::unique_ptr<BlockStmt>\<close> body of a function
  or of a room event is a \<open>Statement\<close> built by \<open>BlockStmt\<close>.
\<close>

datatype Statement =
    ExpressionStmt SourceLocation "Expression option"
  | VarStmt SourceLocation Token "Expression option"
  | BlockStmt SourceLocation "Statement list"
  | IfStmt SourceLocation "Expression option" Statement "Statement option"
  | WhileStmt SourceLocation "Expression option" Statement
  | FunctionStmt SourceLocation Token "Token list" Statement
  | ReturnStmt SourceLocation Token "Expression option"
  | SayStmt SourceLocation "Expression option"
  | GotoStmt SourceLocation "Expression option"

datatype Item = Item SourceLocation Token "(string \<times> Expression option) list"

datatype Room =
  Room SourceLocation Token "(string \<times> Expression option) list" "Item list"
       "(string \<times> Statement) list"

text \<open>The root node; \<open>functions\<close> being reserved in Isabelle, its three sequences carry the
  prefix \<open>program_\<close>.\<close>

record Program =
  program_location :: SourceLocation
  program_rooms :: "Room list"
  program_statements :: "Statement list"
  program_functions :: "Statement list"

definition new_Program :: "SourceLocation \<Rightarrow> Program" where
  "new_Program loc = \<lparr>program_location = loc, program_rooms = [], program_statements = [], program_functions = []\<rparr>"

definition addRoom :: "Room \<Rightarrow> Program \<Rightarrow> Program" where
  "addRoom room prog = prog\<lparr>program_rooms := program_rooms prog @ [room]\<rparr>"

definition addStatement :: "Statement \<Rightarrow> Program \<Rightarrow> Program" where
  "addStatement stmt prog = prog\<lparr>program_statements := program_statements prog @ [stmt]\<rparr>"

definition addFunction :: "Statement \<Rightarrow> Program \<Rightarrow> Program" where
  "addFunction func prog = prog\<lparr>program_functions := program_functions prog @ [func]\<rparr>"

section \<open>Parser (include/parser.h, src/parser.cpp)\<close>

text \<open>
  The state of a \<^verbatim>\<open>Parser\<close>: the lexer it drives, the two tokens, the error flag, and
  the lines written to \<^verbatim>\<open>std::cerr\<close> by \<^verbatim>\<open>Parser::error\<close>, each kept as the line, the
  column and the message it prints.
\<close>

record Parser =
  lexer :: Lexer
  current :: Token
  previous :: Token
  errorOccurred :: bool
  cerr :: "(int \<times> int \<times> string) list"

definition Parser_advance :: "Parser \<Rightarrow> Parser" where
  "Parser_advance p =
     (let p = p\<lparr>previous := current p\<rparr>;
          (t, lx) = nextToken (lexer p)
      in p\<lparr>current := t, lexer := lx\<rparr>)"

text \<open>
  The constructor.  The class gives \<^verbatim>\<open>current\<close> no initial value; the model starts from
  the placeholder token that \<^verbatim>\<open>Lexer::tokenize\<close> starts from.
\<close>

definition new_Parser :: "Lexer \<Rightarrow> Parser" where
  "new_Parser lx =
     Parser_advance \<lparr>lexer = lx, current = Token UNKNOWN [] 0 0, previous = Token UNKNOWN [] 0 0,
                     errorOccurred = False, cerr = []\<rparr>"

definition check :: "TokenType \<Rightarrow> Parser \<Rightarrow> bool" where
  "check ty p = (type (current p) = ty)"

definition Parser_match :: "TokenType \<Rightarrow> Parser \<Rightarrow> bool \<times> Parser" where
  "Parser_match ty p = (if check ty p then (True, Parser_advance p) else (False, p))"

text \<open>The overload of \<^verbatim>\<open>match\<close> on a vector of token types.\<close>

fun Parser_match_any :: "TokenType list \<Rightarrow> Parser \<Rightarrow> bool \<times> Parser" where
  "Parser_match_any [] p = (False, p)"
| "Parser_match_any (ty # types) p =
     (if check ty p then (True, Parser_advance p) else Parser_match_any types p)"

definition Parser_error :: "string \<Rightarrow> Parser \<Rightarrow> Parser" where
  "Parser_error message p =
     p\<lparr>errorOccurred := True,
       cerr := cerr p @ [(line (current p), column (current p), message)]\<rparr>"

definition consume :: "TokenType \<Rightarrow> string \<Rightarrow> Parser \<Rightarrow> Token \<times> Parser" where
  "consume ty message p =
     (if check ty p then (let p = Parser_advance p in (previous p, p))
      else (let p = Parser_error message p in (current p, p)))"

definition hadError :: "Parser \<Rightarrow> bool" where
  "hadError p = errorOccurred p"

text \<open>
  What a parsing function does: it returns a value and the parser's new state (\<open>Ok\<close>),
  or lets an exception escape with the parser in some state (\<open>Thrown\<close>), or dereferences
  a null pointer, which ends the process (\<open>Crashed\<close>).  The functions below take fuel,
  one unit per call and per loop iteration; \<open>None\<close> is a run that has not returned
  within the fuel given.
\<close>

datatype 'a outcome = Ok 'a Parser | Thrown Parser | Crashed

definition and_then ::
  "'a outcome option \<Rightarrow> ('a \<Rightarrow> Parser \<Rightarrow> 'b outcome option) \<Rightarrow> 'b outcome option" where
  "and_then m f =
     (case m of
        None \<Rightarrow> None
      | Some (Ok x p) \<Rightarrow> f x p
      | Some (Thrown p) \<Rightarrow> Some (Thrown p)
      | Some Crashed \<Rightarrow> Some Crashed)"

text \<open>
  \<^verbatim>\<open>std::stod\<close> on the lexeme of a NUMBER token (digits, optionally a point and more
  digits): the value, or \<open>None\<close> for the \<^verbatim>\<open>std::out_of_range\<close> it throws when the value
  is too large for a binary64, that is from \<open>2^1024 - 2^970\<close> on, the first value that
  rounds to infinity.  A lexeme with at most 308 digits before the point denotes less
  than \<open>10^308\<close>, which fits, so only longer ones are compared with that bound.
\<close>

definition digits_value :: "string \<Rightarrow> nat" where
  "digits_value ds = foldl (\<lambda>a c. 10 * a + (of_char c - 48)) 0 ds"

definition stod :: "string \<Rightarrow> rat option" where
  "stod s =
     (let whole = takeWhile isdigit s;
          frac = takeWhile isdigit (drop 1 (dropWhile isdigit s));
          v = of_nat (digits_value (whole @ frac)) / 10 ^ length frac
      in if length whole \<le> 308 then Some v
         else if 2 ^ 1024 - 2 ^ 970 \<le> v then None
         else Some v)"

text \<open>\<^verbatim>\<open>synchronize()\<close>: the first \<^verbatim>\<open>advance()\<close>, then the skipping loop.\<close>

fun synchronize_loop :: "nat \<Rightarrow> Parser \<Rightarrow> Parser option" where
  "synchronize_loop 0 p = None"
| "synchronize_loop (Suc n) p =
     (if \<not> check EOF_TOKEN p then
        if type (previous p) = SEMICOLON then Some p
        else if type (current p) \<in> set [ROOM, ITEM, FUNCTION, VAR, IF, WHILE, RETURN, SAY, GOTO]
        then Some p
        else synchronize_loop n (Parser_advance p)
      else Some p)"

definition synchronize :: "nat \<Rightarrow> Parser \<Rightarrow> Parser option" where
  "synchronize n p = synchronize_loop n (Parser_advance p)"


subsection \<open>Expressions\<close>

text \<open>
  \<^verbatim>\<open>std::make_unique<BinaryExpr>(expr->location, std::move(expr), op, std::move(right))\<close>:
  the node takes the location of its left operand, and reading it through a null
  \<^verbatim>\<open>expr\<close> is the null dereference (\<open>None\<close> here).
\<close>

definition make_BinaryExpr ::
  "Expression option \<Rightarrow> Token \<Rightarrow> Expression option \<Rightarrow> Expression option" where
  "make_BinaryExpr expr op right =
     (case expr of None \<Rightarrow> None | Some e \<Rightarrow> Some (BinaryExpr (location e) expr op right))"

text \<open>\<^verbatim>\<open>dynamic_cast<VariableExpr*>(expr.get())\<close> is non-null.\<close>

fun is_VariableExpr :: "Expression option \<Rightarrow> bool" where
  "is_VariableExpr (Some (VariableExpr _ _)) = True"
| "is_VariableExpr _ = False"

text \<open>
  The expression functions call one another down the precedence levels and come back
  to \<^verbatim>\<open>parseExpression\<close> from \<^verbatim>\<open>parsePrimary\<close> (a parenthesised expression) and from
  \<^verbatim>\<open>finishCall\<close> (an argument).  Each function below takes that \<^verbatim>\<open>parseExpression\<close> as its
  first argument \<open>pe\<close>, and \<open>parseExpression\<close> itself closes the recursion at the end.
\<close>

type_synonym 'a parsing = "Parser \<Rightarrow> 'a outcome option"

fun parsePrimary :: "Expression option parsing \<Rightarrow> nat \<Rightarrow> Expression option parsing" where
  "parsePrimary pe 0 p = None"
| "parsePrimary pe (Suc n) p =
     (let loc = getCurrentLocation (lexer p);
          (m, p) = Parser_match FALSE p in
      if m then Some (Ok (Some (LiteralExpr loc (Boolean False))) p) else
      let (m, p) = Parser_match TRUE p in
      if m then Some (Ok (Some (LiteralExpr loc (Boolean True))) p) else
      let (m, p) = Parser_match NUMBER p in
      if m then
        (case stod (lexeme (previous p)) of
           None \<Rightarrow> Some (Thrown p)
         | Some v \<Rightarrow> Some (Ok (Some (LiteralExpr loc (Double v))) p)) else
      let (m, p) = Parser_match STRING p in
      if m then
        (let v = substr (lexeme (previous p)) 1 (length (lexeme (previous p)) - 2)
         in Some (Ok (Some (LiteralExpr loc (Str v))) p)) else
      let (m, p) = Parser_match IDENTIFIER p in
      if m then Some (Ok (Some (VariableExpr loc (previous p))) p) else
      let (m, p) = Parser_match LPAREN p in
      if m then
        and_then (pe p) (\<lambda>expr p.
          let (t, p) = consume RPAREN ''Expected ')' after expression.'' p in Some (Ok expr p))
      else Some (Ok None (Parser_error ''Expected expression.'' p)))"

text \<open>The \<^verbatim>\<open>do ... while (match(COMMA))\<close> loop of \<^verbatim>\<open>finishCall\<close>.\<close>

fun finishCall_loop ::
  "Expression option parsing \<Rightarrow> nat \<Rightarrow> Expression option list \<Rightarrow> Expression option list parsing"
where
  "finishCall_loop pe 0 arguments p = None"
| "finishCall_loop pe (Suc n) arguments p =
     and_then (pe p) (\<lambda>arg p.
       let arguments = arguments @ [arg];
           (m, p) = Parser_match COMMA p
       in if m then finishCall_loop pe n arguments p else Some (Ok arguments p))"

fun finishCall ::
  "Expression option parsing \<Rightarrow> nat \<Rightarrow> Expression option \<Rightarrow> Expression option parsing" where
  "finishCall pe 0 callee p = None"
| "finishCall pe (Suc n) callee p =
     and_then (if \<not> check RPAREN p then finishCall_loop pe n [] p else Some (Ok [] p))
       (\<lambda>arguments p.
          let (paren, p) = consume RPAREN ''Expected ')' after arguments.'' p in
          case callee of
            None \<Rightarrow> Some Crashed
          | Some c \<Rightarrow> Some (Ok (Some (CallExpr (location c) callee paren arguments)) p))"

fun parseCall_loop ::
  "Expression option parsing \<Rightarrow> nat \<Rightarrow> Expression option \<Rightarrow> Expression option parsing" where
  "parseCall_loop pe 0 expr p = None"
| "parseCall_loop pe (Suc n) expr p =
     (let (m, p) = Parser_match LPAREN p in
      if m then and_then (finishCall pe n expr p) (\<lambda>expr p. parseCall_loop pe n expr p)
      else
        (let (m, p) = Parser_match DOT p in
         if m then
           (let (name, p) = consume IDENTIFIER ''Expected property name after '.'.'' p;
                loc = getCurrentLocation (lexer p)
            in parseCall_loop pe n (Some (VariableExpr loc name)) p)
         else Some (Ok expr p)))"

fun parseCall :: "Expression option parsing \<Rightarrow> nat \<Rightarrow> Expression option parsing" where
  "parseCall pe 0 p = None"
| "parseCall pe (Suc n) p =
     and_then (parsePrimary pe n p) (\<lambda>expr p. parseCall_loop pe n expr p)"

fun parseUnary :: "Expression option parsing \<Rightarrow> nat \<Rightarrow> Expression option parsing" where
  "parseUnary pe 0 p = None"
| "parseUnary pe (Suc n) p =
     (let (m, p) = Parser_match_any [MINUS, NOT] p in
      if m then
        (let op = previous p in
         and_then (parseUnary pe n p) (\<lambda>right p.
           case right of
             None \<Rightarrow> Some Crashed
           | Some r \<Rightarrow> Some (Ok (Some (UnaryExpr (location r) op right)) p)))
      else parseCall pe n p)"

fun parseFactor_loop ::
  "Expression option parsing \<Rightarrow> nat \<Rightarrow> Expression option \<Rightarrow> Expression option parsing" where
  "parseFactor_loop pe 0 expr p = None"
| "parseFactor_loop pe (Suc n) expr p =
     (let (m, p) = Parser_match_any [MULTIPLY, DIVIDE, MODULO] p in
      if m then
        (let op = previous p in
         and_then (parseUnary pe n p) (\<lambda>right p.
           case make_BinaryExpr expr op right of
             None \<Rightarrow> Some Crashed
           | Some e \<Rightarrow> parseFactor_loop pe n (Some e) p))
      else Some (Ok expr p))"

fun parseFactor :: "Expression option parsing \<Rightarrow> nat \<Rightarrow> Expression option parsing" where
  "parseFactor pe 0 p = None"
| "parseFactor pe (Suc n) p =
     and_then (parseUnary pe n p) (\<lambda>expr p. parseFactor_loop pe n expr p)"

fun parseTerm_loop ::
  "Expression option parsing \<Rightarrow> nat \<Rightarrow> Expression option \<Rightarrow> Expression option parsing" where
  "parseTerm_loop pe 0 expr p = None"
| "parseTerm_loop pe (Suc n) expr p =
     (let (m, p) = Parser_match_any [PLUS, MINUS] p in
      if m then
        (let op = previous p in
         and_then (parseFactor pe n p) (\<lambda>right p.
           case make_BinaryExpr expr op right of
             None \<Rightarrow> Some Crashed
           | Some e \<Rightarrow> parseTerm_loop pe n (Some e) p))
      else Some (Ok expr p))"

fun parseTerm :: "Expression option parsing \<Rightarrow> nat \<Rightarrow> Expression option parsing" where
  "parseTerm pe 0 p = None"
| "parseTerm pe (Suc n) p =
     and_then (parseFactor pe n p) (\<lambda>expr p. parseTerm_loop pe n expr p)"

fun parseComparison_loop ::
  "Expression option parsing \<Rightarrow> nat \<Rightarrow> Expression option \<Rightarrow> Expression option parsing" where
  "parseComparison_loop pe 0 expr p = None"
| "parseComparison_loop pe (Suc n) expr p =
     (let (m, p) = Parser_match_any [GT, GTE, LT, LTE] p in
      if m then
        (let op = previous p in
         and_then (parseTerm pe n p) (\<lambda>right p.
           case make_BinaryExpr expr op right of
             None \<Rightarrow> Some Crashed
           | Some e \<Rightarrow> parseComparison_loop pe n (Some e) p))
      else Some (Ok expr p))"

fun parseComparison :: "Expression option parsing \<Rightarrow> nat \<Rightarrow> Expression option parsing" where
  "parseComparison pe 0 p = None"
| "parseComparison pe (Suc n) p =
     and_then (parseTerm pe n p) (\<lambda>expr p. parseComparison_loop pe n expr p)"

fun parseEquality_loop ::
  "Expression option parsing \<Rightarrow> nat \<Rightarrow> Expression option \<Rightarrow> Expression option parsing" where
  "parseEquality_loop pe 0 expr p = None"
| "parseEquality_loop pe (Suc n) expr p =
     (let (m, p) = Parser_match_any [EQ, NEQ] p in
      if m then
        (let op = previous p in
         and_then (parseComparison pe n p) (\<lambda>right p.
           case make_BinaryExpr expr op right of
             None \<Rightarrow> Some Crashed
           | Some e \<Rightarrow> parseEquality_loop pe n (Some e) p))
      else Some (Ok expr p))"

fun parseEquality :: "Expression option parsing \<Rightarrow> nat \<Rightarrow> Expression option parsing" where
  "parseEquality pe 0 p = None"
| "parseEquality pe (Suc n) p =
     and_then (parseComparison pe n p) (\<lambda>expr p. parseEquality_loop pe n expr p)"

fun parseLogicalAnd_loop ::
  "Expression option parsing \<Rightarrow> nat \<Rightarrow> Expression option \<Rightarrow> Expression option parsing" where
  "parseLogicalAnd_loop pe 0 expr p = None"
| "parseLogicalAnd_loop pe (Suc n) expr p =
     (let (m, p) = Parser_match AND p in
      if m then
        (let op = previous p in
         and_then (parseEquality pe n p) (\<lambda>right p.
           case make_BinaryExpr expr op right of
             None \<Rightarrow> Some Crashed
           | Some e \<Rightarrow> parseLogicalAnd_loop pe n (Some e) p))
      else Some (Ok expr p))"

fun parseLogicalAnd :: "Expression option parsing \<Rightarrow> nat \<Rightarrow> Expression option parsing" where
  "parseLogicalAnd pe 0 p = None"
| "parseLogicalAnd pe (Suc n) p =
     and_then (parseEquality pe n p) (\<lambda>expr p. parseLogicalAnd_loop pe n expr p)"

fun parseLogicalOr_loop ::
  "Expression option parsing \<Rightarrow> nat \<Rightarrow> Expression option \<Rightarrow> Expression option parsing" where
  "parseLogicalOr_loop pe 0 expr p = None"
| "parseLogicalOr_loop pe (Suc n) expr p =
     (let (m, p) = Parser_match OR p in
      if m then
        (let op = previous p in
         and_then (parseLogicalAnd pe n p) (\<lambda>right p.
           case make_BinaryExpr expr op right of
             None \<Rightarrow> Some Crashed
           | Some e \<Rightarrow> parseLogicalOr_loop pe n (Some e) p))
      else Some (Ok expr p))"

fun parseLogicalOr :: "Expression option parsing \<Rightarrow> nat \<Rightarrow> Expression option parsing" where
  "parseLogicalOr pe 0 p = None"
| "parseLogicalOr pe (Suc n) p =
     and_then (parseLogicalAnd pe n p) (\<lambda>expr p. parseLogicalOr_loop pe n expr p)"

fun parseAssignment :: "Expression option parsing \<Rightarrow> nat \<Rightarrow> Expression option parsing" where
  "parseAssignment pe 0 p = None"
| "parseAssignment pe (Suc n) p =
     and_then (parseLogicalOr pe n p) (\<lambda>expr p.
       let (m, p) = Parser_match ASSIGN p in
       if m then
         (let equals = previous p in
          and_then (parseAssignment pe n p) (\<lambda>value p.
            if is_VariableExpr expr then Some (Ok (make_BinaryExpr expr equals value) p)
            else Some (Ok expr (Parser_error ''Invalid assignment target.'' p))))
       else Some (Ok expr p))"

primrec parseExpression :: "nat \<Rightarrow> Expression option parsing" where
  "parseExpression 0 = (\<lambda>p. None)"
| "parseExpression (Suc n) = parseAssignment (parseExpression n) n"


subsection \<open>Statements\<close>

text \<open>
  The statement functions come back to \<^verbatim>\<open>parseStatement\<close> from the loop of
  \<^verbatim>\<open>parseBlock\<close> and from the branches of \<^verbatim>\<open>if\<close> and \<^verbatim>\<open>while\<close>; those three take it
  as their first argument \<open>ps\<close>, and \<open>parseStatement\<close> closes the recursion.
\<close>

fun parseVarDeclaration :: "nat \<Rightarrow> Statement parsing" where
  "parseVarDeclaration 0 p = None"
| "parseVarDeclaration (Suc n) p =
     (let loc = getCurrentLocation (lexer p);
          (name, p) = consume IDENTIFIER ''Expected variable name.'' p;
          (m, p) = Parser_match ASSIGN p
      in and_then (if m then parseExpression n p else Some (Ok None p)) (\<lambda>initializer p.
           let (t, p) = consume SEMICOLON ''Expected ';' after variable declaration.'' p
           in Some (Ok (VarStmt loc name initializer) p)))"

fun parseBlock_loop :: "Statement parsing \<Rightarrow> nat \<Rightarrow> Statement list \<Rightarrow> Statement list parsing"
where
  "parseBlock_loop ps 0 stmts p = None"
| "parseBlock_loop ps (Suc n) stmts p =
     (if \<not> check RBRACE p \<and> \<not> check EOF_TOKEN p then
        and_then (ps p) (\<lambda>stmt p. parseBlock_loop ps n (stmts @ [stmt]) p)
      else Some (Ok stmts p))"

fun parseBlock :: "Statement parsing \<Rightarrow> nat \<Rightarrow> Statement parsing" where
  "parseBlock ps 0 p = None"
| "parseBlock ps (Suc n) p =
     (let loc = getCurrentLocation (lexer p) in
      and_then (parseBlock_loop ps n [] p) (\<lambda>stmts p.
        let (t, p) = consume RBRACE ''Expected '}' after block.'' p
        in Some (Ok (BlockStmt loc stmts) p)))"

fun parseIfStatement :: "Statement parsing \<Rightarrow> nat \<Rightarrow> Statement parsing" where
  "parseIfStatement ps 0 p = None"
| "parseIfStatement ps (Suc n) p =
     (let loc = getCurrentLocation (lexer p);
          (t, p) = consume LPAREN ''Expected '(' after 'if'.'' p
      in and_then (parseExpression n p) (\<lambda>condition p.
           let (t, p) = consume RPAREN ''Expected ')' after if condition.'' p in
           and_then (ps p) (\<lambda>thenBranch p.
             let (m, p) = Parser_match ELSE p in
             and_then (if m then and_then (ps p) (\<lambda>stmt p. Some (Ok (Some stmt) p))
                       else Some (Ok None p))
               (\<lambda>elseBranch p. Some (Ok (IfStmt loc condition thenBranch elseBranch) p)))))"

fun parseWhileStatement :: "Statement parsing \<Rightarrow> nat \<Rightarrow> Statement parsing" where
  "parseWhileStatement ps 0 p = None"
| "parseWhileStatement ps (Suc n) p =
     (let loc = getCurrentLocation (lexer p);
          (t, p) = consume LPAREN ''Expected '(' after 'while'.'' p
      in and_then (parseExpression n p) (\<lambda>condition p.
           let (t, p) = consume RPAREN ''Expected ')' after while condition.'' p in
           and_then (ps p) (\<lambda>body p. Some (Ok (WhileStmt loc condition body) p))))"

fun parseReturnStatement :: "nat \<Rightarrow> Statement parsing" where
  "parseReturnStatement 0 p = None"
| "parseReturnStatement (Suc n) p =
     (let loc = getCurrentLocation (lexer p);
          keyword = previous p
      in and_then (if \<not> check SEMICOLON p then parseExpression n p else Some (Ok None p))
           (\<lambda>v p.
              let (t, p) = consume SEMICOLON ''Expected ';' after return value.'' p
              in Some (Ok (ReturnStmt loc keyword v) p)))"

fun parseSayStatement :: "nat \<Rightarrow> Statement parsing" where
  "parseSayStatement 0 p = None"
| "parseSayStatement (Suc n) p =
     (let loc = getCurrentLocation (lexer p) in
      and_then (parseExpression n p) (\<lambda>message p.
        let (t, p) = consume SEMICOLON ''Expected ';' after message.'' p
        in Some (Ok (SayStmt loc message) p)))"

fun parseGotoStatement :: "nat \<Rightarrow> Statement parsing" where
  "parseGotoStatement 0 p = None"
| "parseGotoStatement (Suc n) p =
     (let loc = getCurrentLocation (lexer p);
          (t, p) = consume LPAREN ''Expected '(' after 'goto'.'' p
      in and_then (parseExpression n p) (\<lambda>destination p.
           let (t, p) = consume RPAREN ''Expected ')' after goto destination.'' p;
               (t, p) = consume SEMICOLON ''Expected ';' after goto statement.'' p
           in Some (Ok (GotoStmt loc destination) p)))"

fun parseExpressionStatement :: "nat \<Rightarrow> Statement parsing" where
  "parseExpressionStatement 0 p = None"
| "parseExpressionStatement (Suc n) p =
     (let loc = getCurrentLocation (lexer p) in
      and_then (parseExpression n p) (\<lambda>expr p.
        let (t, p) = consume SEMICOLON ''Expected ';' after expression.'' p
        in Some (Ok (ExpressionStmt loc expr) p)))"

primrec parseStatement :: "nat \<Rightarrow> Statement parsing" where
  "parseStatement 0 = (\<lambda>p. None)"
| "parseStatement (Suc n) =
     (\<lambda>p. let (m, p) = Parser_match IF p in
           if m then parseIfStatement (parseStatement n) n p else
           let (m, p) = Parser_match WHILE p in
           if m then parseWhileStatement (parseStatement n) n p else
           let (m, p) = Parser_match VAR p in
           if m then parseVarDeclaration n p else
           let (m, p) = Parser_match LBRACE p in
           if m then parseBlock (parseStatement n) n p else
           let (m, p) = Parser_match RETURN p in
           if m then parseReturnStatement n p else
           let (m, p) = Parser_match SAY p in
           if m then parseSayStatement n p else
           let (m, p) = Parser_match GOTO p in
           if m then parseGotoStatement n p
           else parseExpressionStatement n p)"

subsection \<open>Declarations and the program\<close>

fun parseItem_loop ::
  "nat \<Rightarrow> (string \<times> Expression option) list \<Rightarrow> (string \<times> Expression option) list parsing"
where
  "parseItem_loop 0 properties p = None"
| "parseItem_loop (Suc n) properties p =
     (if \<not> check RBRACE p \<and> \<not> check EOF_TOKEN p then
        (let (propertyName, p) = consume IDENTIFIER ''Expected property name.'' p;
             (t, p) = consume COLON ''Expected ':' after property name.'' p
         in and_then (parseExpression n p) (\<lambda>v p.
              let (t, p) = consume SEMICOLON ''Expected ';' after property value.'' p
              in parseItem_loop n (properties @ [(lexeme propertyName, v)]) p))
      else Some (Ok properties p))"

fun parseItem :: "nat \<Rightarrow> Item parsing" where
  "parseItem 0 p = None"
| "parseItem (Suc n) p =
     (let loc = getCurrentLocation (lexer p);
          (name, p) = consume IDENTIFIER ''Expected item name.'' p;
          (t, p) = consume LBRACE ''Expected '{' after item name.'' p
      in and_then (parseItem_loop n [] p) (\<lambda>properties p.
           let (t, p) = consume RBRACE ''Expected '}' after item body.'' p
           in Some (Ok (Item loc name properties) p)))"

text \<open>The loop of \<^verbatim>\<open>parseRoom\<close> carries the three vectors it fills.\<close>

fun parseRoom_loop ::
  "nat \<Rightarrow> (string \<times> Expression option) list \<Rightarrow> Item list \<Rightarrow> (string \<times> Statement) list \<Rightarrow>
   ((string \<times> Expression option) list \<times> Item list \<times> (string \<times> Statement) list) parsing"
where
  "parseRoom_loop 0 properties items events p = None"
| "parseRoom_loop (Suc n) properties items events p =
     (if \<not> check RBRACE p \<and> \<not> check EOF_TOKEN p then
        (let (m, p) = Parser_match ITEM p in
         if m then
           and_then (parseItem n p) (\<lambda>item p.
             parseRoom_loop n properties (items @ [item]) events p)
         else
           let (m, p) = Parser_match WHEN p in
           if m then
             (let (eventType, p) = consume IDENTIFIER ''Expected event type after 'when'.'' p
              in and_then (parseBlock (parseStatement n) n p) (\<lambda>body p.
                   parseRoom_loop n properties items (events @ [(lexeme eventType, body)]) p))
           else
             (let (propertyName, p) = consume IDENTIFIER ''Expected property name.'' p;
                  (t, p) = consume COLON ''Expected ':' after property name.'' p
              in and_then (parseExpression n p) (\<lambda>v p.
                   let (t, p) = consume SEMICOLON ''Expected ';' after property value.'' p
                   in parseRoom_loop n (properties @ [(lexeme propertyName, v)]) items events p)))
      else Some (Ok (properties, items, events) p))"

fun parseRoom :: "nat \<Rightarrow> Room parsing" where
  "parseRoom 0 p = None"
| "parseRoom (Suc n) p =
     (let loc = getCurrentLocation (lexer p);
          (name, p) = consume IDENTIFIER ''Expected room name.'' p;
          (t, p) = consume LBRACE ''Expected '{' after room name.'' p
      in and_then (parseRoom_loop n [] [] [] p) (\<lambda>(properties, items, events) p.
           let (t, p) = consume RBRACE ''Expected '}' after room body.'' p
           in Some (Ok (Room loc name properties items events) p)))"

text \<open>The \<^verbatim>\<open>do ... while (match(COMMA))\<close> loop of \<^verbatim>\<open>parseFunction\<close>.\<close>

fun parseFunction_loop :: "nat \<Rightarrow> Token list \<Rightarrow> Token list parsing" where
  "parseFunction_loop 0 parameters p = None"
| "parseFunction_loop (Suc n) parameters p =
     (let (t, p) = consume IDENTIFIER ''Expected parameter name.'' p;
          parameters = parameters @ [t];
          (m, p) = Parser_match COMMA p
      in if m then parseFunction_loop n parameters p else Some (Ok parameters p))"

fun parseFunction :: "nat \<Rightarrow> Statement parsing" where
  "parseFunction 0 p = None"
| "parseFunction (Suc n) p =
     (let loc = getCurrentLocation (lexer p);
          (name, p) = consume IDENTIFIER ''Expected function name.'' p;
          (t, p) = consume LPAREN ''Expected '(' after function name.'' p
      in and_then (if \<not> check RPAREN p then parseFunction_loop n [] p else Some (Ok [] p))
           (\<lambda>parameters p.
              let (t, p) = consume RPAREN ''Expected ')' after parameters.'' p;
                  (t, p) = consume LBRACE ''Expected '{' before function body.'' p
              in and_then (parseBlock (parseStatement n) n p) (\<lambda>body p.
                   Some (Ok (FunctionStmt loc name parameters body) p))))"

text \<open>
  The body of the \<^verbatim>\<open>try\<close> block in the loop of \<^verbatim>\<open>parseProgram\<close>: it yields the program
  with the new node added.
\<close>

definition parseProgram_try :: "nat \<Rightarrow> Program \<Rightarrow> Program parsing" where
  "parseProgram_try n program p =
     (let (m, p) = Parser_match ROOM p in
      if m then and_then (parseRoom n p) (\<lambda>room p. Some (Ok (addRoom room program) p))
      else
        let (m, p) = Parser_match FUNCTION p in
        if m then and_then (parseFunction n p) (\<lambda>func p. Some (Ok (addFunction func program) p))
        else and_then (parseStatement n p) (\<lambda>stmt p. Some (Ok (addStatement stmt program) p)))"

text \<open>
  The loop itself.  An exception leaves the program as it was and runs
  \<^verbatim>\<open>synchronize()\<close>; a null dereference is not an exception and ends the run.
\<close>

fun parseProgram_loop :: "nat \<Rightarrow> Program \<Rightarrow> Program parsing" where
  "parseProgram_loop 0 program p = None"
| "parseProgram_loop (Suc n) program p =
     (if \<not> check EOF_TOKEN p then
        (case parseProgram_try n program p of
           None \<Rightarrow> None
         | Some (Ok program p) \<Rightarrow> parseProgram_loop n program p
         | Some (Thrown p) \<Rightarrow>
             (case synchronize n p of
                None \<Rightarrow> None
              | Some p \<Rightarrow> parseProgram_loop n program p)
         | Some Crashed \<Rightarrow> Some Crashed)
      else Some (Ok program p))"

fun parseProgram :: "nat \<Rightarrow> Program parsing" where
  "parseProgram 0 p = None"
| "parseProgram (Suc n) p =
     (let loc = getCurrentLocation (lexer p)
      in parseProgram_loop n (new_Program loc) p)"

definition parse :: "nat \<Rightarrow> Program parsing" where
  "parse n p = parseProgram n p"


section \<open>Auxiliary definitions\<close>

text \<open>
  Names for the parts of \<open>nextToken\<close> that the proofs speak about: the state once
  whitespace is skipped and \<^verbatim>\<open>start\<close> is set, the test for the two slashes of a comment,
  and the \<^verbatim>\<open>switch\<close> without its recursive case.  Lemma \<open>nextToken_unfold\<close> states
  \<open>nextToken\<close> in these terms.
\<close>

definition after_whitespace :: "Lexer \<Rightarrow> Lexer" where
  "after_whitespace lx0 = (skipWhitespace lx0)\<lparr>start := position (skipWhitespace lx0)\<rparr>"

definition is_comment_start :: "Lexer \<Rightarrow> bool" where
  "is_comment_start lx1 =
     (fst (Lexer_advance lx1) = CHR ''/'' \<and> fst (Lexer_match (CHR ''/'') (snd (Lexer_advance lx1))))"

definition nextToken_switch :: "char \<Rightarrow> Lexer \<Rightarrow> Token \<times> Lexer" where
  "nextToken_switch c lx =
     (if isalpha c \<or> c = CHR ''_'' then lex_identifier lx
      else if isdigit c then number lx
      else if c = CHR ''('' then (makeToken LPAREN lx, lx)
      else if c = CHR '')'' then (makeToken RPAREN lx, lx)
      else if c = CHR ''{'' then (makeToken LBRACE lx, lx)
      else if c = CHR ''}'' then (makeToken RBRACE lx, lx)
      else if c = CHR '':'' then (makeToken COLON lx, lx)
      else if c = CHR '','' then (makeToken COMMA lx, lx)
      else if c = CHR '';'' then (makeToken SEMICOLON lx, lx)
      else if c = CHR ''.'' then (makeToken DOT lx, lx)
      else if c = CHR ''+'' then (makeToken PLUS lx, lx)
      else if c = CHR ''-'' then (makeToken MINUS lx, lx)
      else if c = CHR ''*'' then (makeToken MULTIPLY lx, lx)
      else if c = CHR ''/'' then (makeToken DIVIDE lx, lx)
      else if c = CHR ''='' then
        (let (m, lx) = Lexer_match (CHR ''='') lx in (makeToken (if m then EQ else ASSIGN) lx, lx))
      else if c = CHR ''!'' then
        (let (m, lx) = Lexer_match (CHR ''='') lx in (makeToken (if m then NEQ else NOT) lx, lx))
      else if c = CHR ''<'' then
        (let (m, lx) = Lexer_match (CHR ''='') lx in (makeToken (if m then LTE else LT) lx, lx))
      else if c = CHR ''>'' then
        (let (m, lx) = Lexer_match (CHR ''='') lx in (makeToken (if m then GTE else GT) lx, lx))
      else if c = CHR 0x22 then lex_string lx
      else (errorToken ''Unexpected character.'' lx, lx))"


text \<open>The state of the lexer after \<open>k\<close> calls of \<^verbatim>\<open>nextToken()\<close>.\<close>

fun lexer_after :: "nat \<Rightarrow> Lexer \<Rightarrow> Lexer" where
  "lexer_after 0 lx = lx"
| "lexer_after (Suc k) lx = lexer_after k (snd (nextToken lx))"


text \<open>
  The order in which more fuel can only complete a run: a run that has returned
  returns the same with more fuel.
\<close>

definition fuel_le :: "'a option \<Rightarrow> 'a option \<Rightarrow> bool" where
  "fuel_le a b = (a = None \<or> a = b)"


text \<open>The parser over a source text, as \<^verbatim>\<open>main\<close> builds it (with the default file name).\<close>

definition parser_on :: "string \<Rightarrow> Parser" where
  "parser_on src = new_Parser (new_Lexer src ''script.story'')"

text \<open>
  The tokens that start no statement and no expression and that no rule consumes, and
  the state in which \<open>parseStatement\<close> leaves the parser at one of them: two more lines
  on the error stream, the token still current.
\<close>

definition starts_nothing :: "Parser \<Rightarrow> bool" where
  "starts_nothing p =
     (type (current p) \<in> set [ROOM, ITEM, FUNCTION, ELSE, FOR, WHEN, ENTERED, RPAREN, RBRACE,
                               COLON, COMMA, UNKNOWN, COMMENT])"

definition unparsed :: "Parser \<Rightarrow> Parser" where
  "unparsed p =
     Parser_error ''Expected ';' after expression.'' (Parser_error ''Expected expression.'' p)"

text \<open>
  Following the spec's words: the 1-based column of the character at offset \<open>i\<close> of the
  source, that is one more than the number of characters between it and the last
  newline before it.
\<close>

definition spec_column :: "string \<Rightarrow> nat \<Rightarrow> int" where
  "spec_column src i = int (length (takeWhile (\<lambda>c. c \<noteq> CHR 0x0A) (rev (take i src)))) + 1"

text \<open>
  For the proof of the column of a token: the lexer has read no newline yet; its
  column counter then agrees with its position; a later state of the same scan that
  keeps this; and the two shapes of a token, built by \<open>makeToken\<close> or by \<open>errorToken\<close>.
\<close>

definition first_line :: "Lexer \<Rightarrow> bool" where
  "first_line lx = (CHR 0x0A \<notin> set (take (position lx) (source lx)))"

definition column_ok :: "Lexer \<Rightarrow> bool" where
  "column_ok lx =
     (position lx \<le> length (source lx)
      \<and> (first_line lx \<longrightarrow> cur_column lx = int (position lx) + 1))"

definition extends :: "Lexer \<Rightarrow> Lexer \<Rightarrow> bool" where
  "extends lx lx' =
     (source lx' = source lx \<and> filename lx' = filename lx \<and> start lx' = start lx
      \<and> position lx \<le> position lx' \<and> (column_ok lx \<longrightarrow> column_ok lx'))"

definition token_of :: "Token \<Rightarrow> Lexer \<Rightarrow> bool" where
  "token_of t lx =
     ((type t \<noteq> UNKNOWN \<and> t = makeToken (type t) lx)
      \<or> t = errorToken ''Unexpected character.'' lx
      \<or> t = errorToken ''Unterminated string.'' lx)"

section \<open>Properties of the lexer\<close>

subsection \<open>What a call leaves unchanged\<close>

lemma lex_identifier_frame:
  "source (snd (lex_identifier lx)) = source lx \<and> filename (snd (lex_identifier lx)) = filename lx"
proof (induction lx rule: lex_identifier.induct)
  case (1 lx)
  show ?case
    using 1 by (subst (1 2) lex_identifier.simps) (auto simp: Let_def Lexer_advance_def)
qed

lemma number_digits_frame:
  "source (number_digits lx) = source lx \<and> filename (number_digits lx) = filename lx"
proof (induction lx rule: number_digits.induct)
  case (1 lx)
  show ?case
    using 1 by (subst (1 2) number_digits.simps) (auto simp: Lexer_advance_def)
qed

lemma number_frame:
  "source (snd (number lx)) = source lx \<and> filename (snd (number lx)) = filename lx"
  by (simp add: number_def Let_def number_digits_frame Lexer_advance_def)

lemma lex_string_frame:
  "source (snd (lex_string lx)) = source lx \<and> filename (snd (lex_string lx)) = filename lx"
proof (induction lx rule: lex_string.induct)
  case (1 lx)
  show ?case
    using 1 by (subst (1 2) lex_string.simps) (auto simp: Let_def Lexer_advance_def)
qed

lemma nextToken_frame:
  "source (snd (nextToken lx)) = source lx \<and> filename (snd (nextToken lx)) = filename lx"
proof (induction lx rule: nextToken.induct)
  case (1 lx0)
  show ?case
    using 1
    by (subst (1 2) nextToken.simps)
       (auto simp: Let_def Lexer_advance_def Lexer_match_def skipWhitespace_frame
          skipLineComment_frame lex_identifier_frame number_frame lex_string_frame
          split: prod.splits if_splits)
qed


subsection \<open>The structure of \<open>nextToken\<close>\<close>

lemma Lexer_match_False: "Lexer_match c lx = (False, lx') \<Longrightarrow> lx' = lx"
  by (auto simp: Lexer_match_def split: if_splits)

lemma nextToken_unfold:
  "nextToken lx0 =
     (if isAtEnd (after_whitespace lx0)
      then (makeToken EOF_TOKEN (after_whitespace lx0), after_whitespace lx0)
      else if is_comment_start (after_whitespace lx0)
      then nextToken (skipLineComment
             (snd (Lexer_match (CHR ''/'') (snd (Lexer_advance (after_whitespace lx0))))))
      else nextToken_switch (fst (Lexer_advance (after_whitespace lx0)))
             (snd (Lexer_advance (after_whitespace lx0))))"
proof -
  let ?lx1 = "after_whitespace lx0"
  obtain c lx2 where adv: "Lexer_advance ?lx1 = (c, lx2)"
    by (cases "Lexer_advance ?lx1")
  obtain m lx3 where mt: "Lexer_match (CHR ''/'') lx2 = (m, lx3)"
    by (cases "Lexer_match (CHR ''/'') lx2")
  show ?thesis
  proof (cases "isAtEnd ?lx1")
    case True
    then show ?thesis
      by (subst nextToken.simps) (simp add: Let_def after_whitespace_def)
  next
    case False
    note not_end = this
    show ?thesis
    proof (cases "c = CHR ''/''")
      case True
      have "nextToken lx0 = (if m then nextToken (skipLineComment lx3) else (makeToken DIVIDE lx3, lx3))"
        using not_end adv mt True
        by (subst nextToken.simps)
           (simp add: Let_def after_whitespace_def [symmetric] isalpha_def isdigit_def)
      moreover have "\<not> m \<Longrightarrow> lx3 = lx2"
        using mt Lexer_match_False by (cases m) auto
      moreover have "nextToken_switch c lx2 = (makeToken DIVIDE lx2, lx2)"
        using True by (simp add: nextToken_switch_def isalpha_def isdigit_def)
      ultimately show ?thesis
        using not_end adv mt True by (simp add: is_comment_start_def)
    next
      case False
      then have "\<not> is_comment_start ?lx1"
        using adv by (simp add: is_comment_start_def)
      moreover have "nextToken lx0 = nextToken_switch c lx2"
        using not_end adv False
        by (subst nextToken.simps)
           (simp add: Let_def after_whitespace_def [symmetric] nextToken_switch_def cong: if_cong)
      ultimately show ?thesis
        using not_end adv by simp
    qed
  qed
qed

lemma nextToken_induct2 [case_names step]:
  assumes "\<And>lx0.
     (\<not> isAtEnd (after_whitespace lx0) \<Longrightarrow> is_comment_start (after_whitespace lx0) \<Longrightarrow>
        P (skipLineComment
             (snd (Lexer_match (CHR ''/'') (snd (Lexer_advance (after_whitespace lx0)))))))
     \<Longrightarrow> P lx0"
  shows "P lx"
proof (induction lx rule: nextToken.induct)
  case (1 lx0)
  show ?case
  proof (rule assms)
    assume a: "\<not> isAtEnd (after_whitespace lx0)" "is_comment_start (after_whitespace lx0)"
    obtain c lx2 where adv: "Lexer_advance (after_whitespace lx0) = (c, lx2)"
      by (cases "Lexer_advance (after_whitespace lx0)")
    obtain m lx3 where mt: "Lexer_match (CHR ''/'') lx2 = (m, lx3)"
      by (cases "Lexer_match (CHR ''/'') lx2")
    have c: "c = CHR ''/''" and m: "m"
      using a(2) adv mt by (simp_all add: is_comment_start_def)
    have "P (skipLineComment lx3)"
      using a(1) adv mt c m
      by (intro "1.IH" [of "skipWhitespace lx0" "after_whitespace lx0" "(c, lx2)" c lx2 "(m, lx3)" m lx3])
         (simp_all add: after_whitespace_def isalpha_def isdigit_def)
    then show "P (skipLineComment
             (snd (Lexer_match (CHR ''/'') (snd (Lexer_advance (after_whitespace lx0))))))"
      using adv mt by simp
  qed
qed



subsection \<open>End of input\<close>

lemma skipWhitespace_at_end: "isAtEnd lx \<Longrightarrow> skipWhitespace lx = lx"
  by (subst skipWhitespace.simps) (simp add: peek_def)

lemma nextToken_at_end:
  "isAtEnd lx \<Longrightarrow>
     nextToken lx = (makeToken EOF_TOKEN (lx\<lparr>start := position lx\<rparr>), lx\<lparr>start := position lx\<rparr>)"
  by (subst nextToken.simps) (simp add: skipWhitespace_at_end isAtEnd_def Let_def)

lemma Lexer_keywords_not_EOF: "Lexer_keywords text = Some k \<Longrightarrow> k \<noteq> EOF_TOKEN"
  by (auto simp: Lexer_keywords_def split: if_splits)

lemma type_makeToken [simp]: "type (makeToken ty lx) = ty"
  by (simp add: makeToken_def Let_def)

lemma lex_identifier_not_EOF: "type (fst (lex_identifier lx)) \<noteq> EOF_TOKEN"
proof (induction lx rule: lex_identifier.induct)
  case (1 lx)
  show ?case
    using 1
    by (subst lex_identifier.simps)
       (auto simp: Let_def dest: Lexer_keywords_not_EOF split: option.splits)
qed

lemma number_not_EOF: "type (fst (number lx)) \<noteq> EOF_TOKEN"
  by (simp add: number_def Let_def)

lemma lex_string_not_EOF: "type (fst (lex_string lx)) \<noteq> EOF_TOKEN"
proof (induction lx rule: lex_string.induct)
  case (1 lx)
  show ?case
    using 1 by (subst lex_string.simps) (auto simp: Let_def errorToken_def)
qed




lemma lex_identifier_EOF_D: "lex_identifier lx = (t, lx') \<Longrightarrow> type t \<noteq> EOF_TOKEN"
  using lex_identifier_not_EOF [of lx] by simp

lemma number_EOF_D: "number lx = (t, lx') \<Longrightarrow> type t \<noteq> EOF_TOKEN"
  using number_not_EOF [of lx] by simp

lemma lex_string_EOF_D: "lex_string lx = (t, lx') \<Longrightarrow> type t \<noteq> EOF_TOKEN"
  using lex_string_not_EOF [of lx] by simp


lemma nextToken_switch_not_EOF: "type (fst (nextToken_switch c lx)) \<noteq> EOF_TOKEN"
  by (simp add: nextToken_switch_def lex_identifier_not_EOF number_not_EOF lex_string_not_EOF
        errorToken_def split: prod.splits)

lemma nextToken_EOF:
  "type (fst (nextToken lx)) = EOF_TOKEN \<Longrightarrow>
     isAtEnd (snd (nextToken lx)) \<and> start (snd (nextToken lx)) = position (snd (nextToken lx))
     \<and> fst (nextToken lx) = makeToken EOF_TOKEN (snd (nextToken lx))"
proof (induction lx rule: nextToken_induct2)
  case (step lx0)
  show ?case
  proof (cases "isAtEnd (after_whitespace lx0)")
    case True
    then have "nextToken lx0 = (makeToken EOF_TOKEN (after_whitespace lx0), after_whitespace lx0)"
      by (subst nextToken_unfold) simp
    then show ?thesis
      using True by (simp add: after_whitespace_def)
  next
    case False
    show ?thesis
    proof (cases "is_comment_start (after_whitespace lx0)")
      case True
      with False step show ?thesis
        by (subst (1 2 3 4 5) nextToken_unfold) (simp add: nextToken_unfold [of lx0])
    next
      case c: False
      with False step.prems show ?thesis
        by (simp add: nextToken_unfold [of lx0] nextToken_switch_not_EOF)
    qed
  qed
qed

lemma nextToken_after_EOF:
  assumes "isAtEnd lx" "start lx = position lx"
  shows "nextToken lx = (makeToken EOF_TOKEN lx, lx)"
proof -
  have "lx\<lparr>start := position lx\<rparr> = lx"
    using assms(2) [symmetric] by simp
  then show ?thesis
    using assms(1) nextToken_at_end [of lx] by simp
qed

lemma lexer_after_EOF:
  assumes "isAtEnd lx" "start lx = position lx"
  shows "lexer_after k lx = lx"
  using assms by (induction k) (simp_all add: nextToken_after_EOF)


text \<open>
  Claim C5.  Once \<^verbatim>\<open>nextToken()\<close> has returned an end-of-input token, every later call
  (after any number \<open>k\<close> of calls in between) returns that same token: an end-of-input
  token, at the same line and column.
\<close>

theorem end_of_input_idempotent:
  assumes "type (fst (nextToken lx)) = EOF_TOKEN"
  shows "fst (nextToken (lexer_after k (snd (nextToken lx)))) = fst (nextToken lx)
         \<and> type (fst (nextToken (lexer_after k (snd (nextToken lx))))) = EOF_TOKEN
         \<and> line (fst (nextToken (lexer_after k (snd (nextToken lx))))) = line (fst (nextToken lx))
         \<and> column (fst (nextToken (lexer_after k (snd (nextToken lx))))) = column (fst (nextToken lx))"
proof -
  let ?lx' = "snd (nextToken lx)"
  have e: "isAtEnd ?lx'" "start ?lx' = position ?lx'" "fst (nextToken lx) = makeToken EOF_TOKEN ?lx'"
    using nextToken_EOF [OF assms] by simp_all
  have "lexer_after k ?lx' = ?lx'"
    using e by (simp add: lexer_after_EOF)
  moreover have "nextToken ?lx' = (makeToken EOF_TOKEN ?lx', ?lx')"
    using e by (simp add: nextToken_after_EOF)
  ultimately show ?thesis
    using e assms by simp
qed


theorem end_of_input_idempotent_witness:
  "type (fst (nextToken (snd (nextToken (new_Lexer ''say'' ''script.story''))))) = EOF_TOKEN
   \<and> fst (nextToken (lexer_after 2 (snd (nextToken (snd (nextToken
           (new_Lexer ''say'' ''script.story'')))))))
       = Token EOF_TOKEN [] 1 4"
proof -
  let ?lx = "snd (nextToken (new_Lexer ''say'' ''script.story''))"
  have h: "type (fst (nextToken ?lx)) = EOF_TOKEN"
    by code_simp
  have v: "fst (nextToken ?lx) = Token EOF_TOKEN [] 1 4"
    by code_simp
  show ?thesis
    using h v end_of_input_idempotent [OF h, of 2] by simp
qed

subsection \<open>Looking ahead\<close>

text \<open>
  Claim C6.  \<^verbatim>\<open>peekToken()\<close> leaves the lexer exactly as it was (position, token start,
  line and column, and the source and file name, which no call changes), and the token
  it returns is the one that the call of \<^verbatim>\<open>nextToken()\<close> right after it returns.
\<close>

theorem peekToken_frame:
  "snd (peekToken lx) = lx \<and> fst (peekToken lx) = fst (nextToken (snd (peekToken lx)))"
proof -
  obtain t lx' where n: "nextToken lx = (t, lx')" by (cases "nextToken lx")
  have f: "source lx' = source lx" "filename lx' = filename lx"
    using nextToken_frame [of lx] n by simp_all
  have "snd (peekToken lx) = lx"
    using f by (simp add: peekToken_def n)
  moreover have "fst (peekToken lx) = t"
    by (simp add: peekToken_def n)
  ultimately show ?thesis using n by simp
qed




subsection \<open>Token text and column\<close>

lemma extends_refl [simp]: "extends lx lx"
  by (simp add: extends_def)

lemma extends_trans: "extends a b \<Longrightarrow> extends b c \<Longrightarrow> extends a c"
  by (auto simp: extends_def)

lemma first_line_mono:
  "source lx' = source lx \<Longrightarrow> position lx \<le> position lx' \<Longrightarrow> first_line lx' \<Longrightarrow> first_line lx"
  unfolding first_line_def using set_take_subset_set_take [of "position lx" "position lx'" "source lx"]
  by auto

lemma advance_extends:
  assumes "\<not> isAtEnd lx"
  shows "extends lx (snd (Lexer_advance lx))"
proof -
  let ?lx' = "snd (Lexer_advance lx)"
  have f: "source ?lx' = source lx" "position ?lx' = position lx + 1"
    "cur_column ?lx' = cur_column lx + 1" "filename ?lx' = filename lx" "start ?lx' = start lx"
    by (simp_all add: Lexer_advance_def Let_def)
  have "first_line ?lx' \<Longrightarrow> first_line lx"
    using first_line_mono [of ?lx' lx] f by simp
  then show ?thesis
    using assms f by (auto simp: extends_def column_ok_def isAtEnd_def)
qed

lemma newline_advance_extends:
  assumes "\<not> isAtEnd lx" "peek lx = CHR 0x0A"
  shows "extends lx (snd (Lexer_advance (lx\<lparr>cur_line := l, cur_column := c\<rparr>)))"
proof -
  let ?lx' = "snd (Lexer_advance (lx\<lparr>cur_line := l, cur_column := c\<rparr>))"
  have f: "source ?lx' = source lx" "position ?lx' = position lx + 1"
    "filename ?lx' = filename lx" "start ?lx' = start lx"
    by (simp_all add: Lexer_advance_def Let_def)
  have "source lx ! position lx = CHR 0x0A" "position lx < length (source lx)"
    using assms by (simp_all add: peek_def char_at_def isAtEnd_def split: if_splits)
  then have "CHR 0x0A \<in> set (take (position lx + 1) (source lx))"
    by (metis Suc_eq_plus1 in_set_conv_nth length_take lessI min_less_iff_conj nth_take)
  then have "\<not> first_line ?lx'"
    using f by (simp add: first_line_def)
  then show ?thesis
    using assms(1) f by (auto simp: extends_def column_ok_def isAtEnd_def)
qed

lemma match_extends: "extends lx (snd (Lexer_match c lx))"
proof (cases "fst (Lexer_match c lx)")
  case False
  then have "snd (Lexer_match c lx) = lx"
    by (auto simp: Lexer_match_def split: if_splits)
  then show ?thesis by simp
next
  case True
  then have e: "\<not> isAtEnd lx" and s: "snd (Lexer_match c lx) = snd (Lexer_advance lx)"
    by (auto simp: Lexer_match_def Lexer_advance_def Let_def split: if_splits)
  show ?thesis
    unfolding s by (rule advance_extends [OF e])
qed

lemma peek_not_end: "peek lx \<noteq> CHR 0x00 \<Longrightarrow> \<not> isAtEnd lx"
  by (auto simp: peek_def)

lemma skipWhitespace_extends: "extends lx (skipWhitespace lx)"
proof (induction lx rule: skipWhitespace.induct)
  case (1 lx)
  show ?case
  proof (cases "peek lx = CHR '' '' \<or> peek lx = CHR 0x0D \<or> peek lx = CHR 0x09")
    case True
    then have "\<not> isAtEnd lx" by (auto simp: peek_def)
    then have "extends lx (snd (Lexer_advance lx))" by (rule advance_extends)
    moreover have "extends (snd (Lexer_advance lx)) (skipWhitespace (snd (Lexer_advance lx)))"
      using True by (intro "1.IH"(1)) auto
    moreover have "skipWhitespace lx = skipWhitespace (snd (Lexer_advance lx))"
      using True by (subst skipWhitespace.simps) (auto simp: Let_def)
    ultimately show ?thesis by (auto intro: extends_trans)
  next
    case False
    show ?thesis
    proof (cases "peek lx = CHR 0x0A")
      case nl: True
      let ?lx1 = "snd (Lexer_advance (lx\<lparr>cur_line := cur_line lx + 1, cur_column := 1\<rparr>))"
      have "\<not> isAtEnd lx" using nl by (auto simp: peek_def)
      then have "extends lx ?lx1" using nl by (rule newline_advance_extends)
      moreover have "extends ?lx1 (skipWhitespace ?lx1)"
        using False nl by (intro "1.IH"(2)) auto
      moreover have "skipWhitespace lx = skipWhitespace ?lx1"
        using False nl by (subst skipWhitespace.simps) (auto simp: Let_def)
      ultimately show ?thesis by (auto intro: extends_trans)
    next
      case nnl: False
      then have "skipWhitespace lx = lx"
        using False by (subst skipWhitespace.simps) (auto simp: Let_def)
      then show ?thesis by simp
    qed
  qed
qed

lemma token_of_makeToken: "ty \<noteq> UNKNOWN \<Longrightarrow> token_of (makeToken ty lx) lx"
  by (simp add: token_of_def)

lemma Lexer_keywords_not_UNKNOWN: "Lexer_keywords text = Some k \<Longrightarrow> k \<noteq> UNKNOWN"
  by (auto simp: Lexer_keywords_def split: if_splits)

lemma skipLineComment_extends: "extends lx (skipLineComment lx)"
proof (induction lx rule: skipLineComment.induct)
  case (1 lx)
  show ?case
  proof (cases "peek lx \<noteq> CHR 0x0A \<and> \<not> isAtEnd lx")
    case True
    then have "extends lx (snd (Lexer_advance lx))" by (intro advance_extends) simp
    moreover have "extends (snd (Lexer_advance lx)) (skipLineComment (snd (Lexer_advance lx)))"
      using True by (intro "1.IH") auto
    moreover have "skipLineComment lx = skipLineComment (snd (Lexer_advance lx))"
      using True by (subst skipLineComment.simps) auto
    ultimately show ?thesis by (auto intro: extends_trans)
  next
    case False
    then have "skipLineComment lx = lx"
      by (subst skipLineComment.simps) auto
    then show ?thesis by simp
  qed
qed

lemma isdigit_not_end: "isdigit (peek lx) \<Longrightarrow> \<not> isAtEnd lx"
  by (auto simp: peek_def isdigit_def)

lemma number_digits_extends: "extends lx (number_digits lx)"
proof (induction lx rule: number_digits.induct)
  case (1 lx)
  show ?case
  proof (cases "isdigit (peek lx)")
    case True
    then have "extends lx (snd (Lexer_advance lx))"
      by (intro advance_extends isdigit_not_end)
    moreover have "extends (snd (Lexer_advance lx)) (number_digits (snd (Lexer_advance lx)))"
      using True by (intro "1.IH")
    moreover have "number_digits lx = number_digits (snd (Lexer_advance lx))"
      using True by (subst number_digits.simps) auto
    ultimately show ?thesis by (auto intro: extends_trans)
  next
    case False
    then have "number_digits lx = lx"
      by (subst number_digits.simps) auto
    then show ?thesis by simp
  qed
qed

lemma number_ok:
  "extends lx (snd (number lx)) \<and> token_of (fst (number lx)) (snd (number lx))"
proof (cases "peek (number_digits lx) = CHR ''.'' \<and> isdigit (peekNext (number_digits lx))")
  case True
  let ?a = "number_digits lx"
  let ?b = "snd (Lexer_advance ?a)"
  have "\<not> isAtEnd ?a" using True by (auto simp: peek_def)
  then have "extends ?a ?b" by (rule advance_extends)
  then have "extends lx (number_digits ?b)"
    using number_digits_extends [of lx] number_digits_extends [of ?b]
    by (blast intro: extends_trans)
  then show ?thesis
    using True by (simp add: number_def Let_def token_of_makeToken)
next
  case False
  then show ?thesis
    using number_digits_extends [of lx]
    by (auto simp: number_def Let_def token_of_makeToken)
qed

lemma lex_identifier_ok:
  "extends lx (snd (lex_identifier lx))
   \<and> token_of (fst (lex_identifier lx)) (snd (lex_identifier lx))"
proof (induction lx rule: lex_identifier.induct)
  case (1 lx)
  show ?case
  proof (cases "isalnum (peek lx) \<or> peek lx = CHR ''_''")
    case True
    then have "\<not> isAtEnd lx"
      by (auto simp: peek_def isalnum_def isalpha_def isdigit_def)
    then have "extends lx (snd (Lexer_advance lx))" by (rule advance_extends)
    moreover have "lex_identifier lx = lex_identifier (snd (Lexer_advance lx))"
      using True by (subst lex_identifier.simps) auto
    ultimately show ?thesis
      using "1.IH" [OF True] by (auto intro: extends_trans)
  next
    case False
    then show ?thesis
      by (subst (1 2 3) lex_identifier.simps)
         (auto simp: Let_def token_of_makeToken dest: Lexer_keywords_not_UNKNOWN
               split: option.splits)
  qed
qed

lemma lex_string_ok:
  "extends lx (snd (lex_string lx)) \<and> token_of (fst (lex_string lx)) (snd (lex_string lx))"
proof (induction lx rule: lex_string.induct)
  case (1 lx)
  show ?case
  proof (cases "peek lx \<noteq> CHR 0x22 \<and> \<not> isAtEnd lx")
    case True
    let ?lx1 = "if peek lx = CHR 0x0A then lx\<lparr>cur_line := cur_line lx + 1, cur_column := 1\<rparr>
                else lx"
    have "extends lx (snd (Lexer_advance ?lx1))"
      using True advance_extends [of lx] newline_advance_extends [of lx] by auto
    moreover have "lex_string lx = lex_string (snd (Lexer_advance ?lx1))"
      using True by (subst lex_string.simps) (auto simp: Let_def)
    ultimately show ?thesis
      using "1.IH" [OF True refl] by (auto intro: extends_trans)
  next
    case False
    show ?thesis
    proof (cases "isAtEnd lx")
      case True
      then have "lex_string lx = (errorToken ''Unterminated string.'' lx, lx)"
        by (subst lex_string.simps) auto
      then show ?thesis by (simp add: token_of_def)
    next
      case ne: False
      then have "lex_string lx =
          (makeToken STRING (snd (Lexer_advance lx)), snd (Lexer_advance lx))"
        using False by (subst lex_string.simps) (auto simp: Let_def)
      then show ?thesis
        using advance_extends [OF ne] by (simp add: token_of_makeToken)
    qed
  qed
qed

lemma nextToken_switch_ok:
  "extends lx (snd (nextToken_switch c lx))
   \<and> token_of (fst (nextToken_switch c lx)) (snd (nextToken_switch c lx))"
  using lex_identifier_ok [of lx] number_ok [of lx] lex_string_ok [of lx]
    match_extends [of lx "CHR ''=''"]
  by (auto simp: nextToken_switch_def token_of_makeToken token_of_def [of "errorToken _ _"]
           split: prod.splits)

lemma column_ok_start [simp]: "column_ok (lx\<lparr>start := s\<rparr>) = column_ok lx"
  by (simp add: column_ok_def first_line_def)

lemma after_whitespace_ok:
  "source (after_whitespace lx) = source lx \<and> filename (after_whitespace lx) = filename lx
   \<and> start (after_whitespace lx) = position (after_whitespace lx)
   \<and> (column_ok lx \<longrightarrow> column_ok (after_whitespace lx))"
  using skipWhitespace_extends [of lx]
  by (simp add: after_whitespace_def extends_def)

lemma nextToken_ok:
  "source (snd (nextToken lx)) = source lx
   \<and> (column_ok lx \<longrightarrow> column_ok (snd (nextToken lx)))
   \<and> start (snd (nextToken lx)) \<le> position (snd (nextToken lx))
   \<and> token_of (fst (nextToken lx)) (snd (nextToken lx))"
proof (induction lx rule: nextToken_induct2)
  case (step lx0)
  let ?lx1 = "after_whitespace lx0"
  note w = after_whitespace_ok [of lx0]
  show ?case
  proof (cases "isAtEnd ?lx1")
    case True
    then have "nextToken lx0 = (makeToken EOF_TOKEN ?lx1, ?lx1)"
      by (subst nextToken_unfold) simp
    then show ?thesis
      using w by (simp add: token_of_makeToken)
  next
    case False
    let ?lx2 = "snd (Lexer_advance ?lx1)"
    have a: "extends ?lx1 ?lx2"
      by (rule advance_extends [OF False])
    show ?thesis
    proof (cases "is_comment_start ?lx1")
      case True
      let ?lx3 = "snd (Lexer_match (CHR ''/'') ?lx2)"
      have "extends ?lx1 (skipLineComment ?lx3)"
        using a match_extends [of ?lx2 "CHR ''/''"] skipLineComment_extends [of ?lx3]
        by (blast intro: extends_trans)
      moreover have "nextToken lx0 = nextToken (skipLineComment ?lx3)"
        using False True by (subst nextToken_unfold) simp
      ultimately show ?thesis
        using step [OF False True] w by (simp add: extends_def)
    next
      case c: False
      have "nextToken lx0 = nextToken_switch (fst (Lexer_advance ?lx1)) ?lx2"
        using False c by (subst nextToken_unfold) simp
      moreover have "extends ?lx1 (snd (nextToken_switch (fst (Lexer_advance ?lx1)) ?lx2))"
        using a nextToken_switch_ok [of ?lx2 "fst (Lexer_advance ?lx1)"]
        by (blast intro: extends_trans)
      ultimately show ?thesis
        using w nextToken_switch_ok [of ?lx2 "fst (Lexer_advance ?lx1)"]
        by (simp add: extends_def)
    qed
  qed
qed

lemma lexer_after_ok:
  "source (lexer_after k lx) = source lx \<and> (column_ok lx \<longrightarrow> column_ok (lexer_after k lx))"
  by (induction k arbitrary: lx) (simp_all add: nextToken_ok)

lemma new_Lexer_column_ok: "column_ok (new_Lexer src fname)"
  by (simp add: column_ok_def new_Lexer_def)

lemma spec_column_first_line:
  "CHR 0x0A \<notin> set (take i src) \<Longrightarrow> i \<le> length src \<Longrightarrow> spec_column src i = int i + 1"
proof -
  assume a: "CHR 0x0A \<notin> set (take i src)" "i \<le> length src"
  then have "takeWhile (\<lambda>c. c \<noteq> CHR 0x0A) (rev (take i src)) = rev (take i src)"
    by (auto simp: takeWhile_eq_all_conv)
  then have "length (takeWhile (\<lambda>c. c \<noteq> CHR 0x0A) (rev (take i src))) = i"
    using a(2) by (simp only: length_rev length_take min_absorb2)
  then show ?thesis
    by (simp only: spec_column_def)
qed

text \<open>
  Claim C4, amended.  For every token that any sequence of \<^verbatim>\<open>nextToken()\<close> calls returns
  on any source: the token start and the position lie in the source, in this order; a
  token that is not a lex-error token has as text exactly the characters of the source
  from the token start up to the position, and, as long as no newline has been read, its
  column is the 1-based column of its first character; a lex-error token has one of the
  two messages as its text.
\<close>

theorem token_text_and_column:
  assumes "nextToken (lexer_after k (new_Lexer src fname)) = (t, lx')"
  shows "start lx' \<le> position lx' \<and> position lx' \<le> length src
         \<and> (type t \<noteq> UNKNOWN \<longrightarrow>
              lexeme t = substr src (start lx') (position lx' - start lx')
              \<and> length (lexeme t) = position lx' - start lx'
              \<and> (CHR 0x0A \<notin> set (take (position lx') src) \<longrightarrow>
                   column t = spec_column src (start lx')))
         \<and> (type t = UNKNOWN \<longrightarrow>
              lexeme t = ''Unexpected character.'' \<or> lexeme t = ''Unterminated string.'')"
proof -
  let ?lx = "lexer_after k (new_Lexer src fname)"
  have s: "source ?lx = src" and c: "column_ok ?lx"
    using lexer_after_ok [of k "new_Lexer src fname"] new_Lexer_column_ok [of src fname]
    by (simp_all add: new_Lexer_def)
  have n: "source lx' = src" "column_ok lx'" "start lx' \<le> position lx'" "token_of t lx'"
    using nextToken_ok [of ?lx] assms s c by simp_all
  have b: "position lx' \<le> length src"
    using n(1,2) by (simp add: column_ok_def)
  have e: "type t = UNKNOWN \<longrightarrow>
              lexeme t = ''Unexpected character.'' \<or> lexeme t = ''Unterminated string.''"
    using n(4) by (auto simp: token_of_def errorToken_def)
  have m: "type t \<noteq> UNKNOWN \<longrightarrow>
              lexeme t = substr src (start lx') (position lx' - start lx')
              \<and> length (lexeme t) = position lx' - start lx'
              \<and> (CHR 0x0A \<notin> set (take (position lx') src) \<longrightarrow>
                   column t = spec_column src (start lx'))"
  proof
    assume "type t \<noteq> UNKNOWN"
    then have t: "t = makeToken (type t) lx'"
      using n(4) by (auto simp: token_of_def errorToken_def)
    have l: "lexeme t = substr src (start lx') (position lx' - start lx')"
      by (subst t) (simp add: makeToken_def Let_def n(1))
    have len: "length (lexeme t) = position lx' - start lx'"
      using l b n(3) by (simp add: substr_def)
    have col: "column t = spec_column src (start lx')"
      if f: "CHR 0x0A \<notin> set (take (position lx') src)"
    proof -
      have "cur_column lx' = int (position lx') + 1"
        using n(1,2) f by (simp add: column_ok_def first_line_def)
      moreover have "column t = cur_column lx' - int (length (lexeme t))"
        by (subst (1 2) t) (simp add: makeToken_def Let_def)
      moreover have "CHR 0x0A \<notin> set (take (start lx') src)"
        using f n(3) set_take_subset_set_take [of "start lx'" "position lx'" src] by auto
      then have "spec_column src (start lx') = int (start lx') + 1"
        using n(3) b by (intro spec_column_first_line) simp_all
      ultimately show ?thesis
        using len n(3) by simp
    qed
    show "lexeme t = substr src (start lx') (position lx' - start lx')
              \<and> length (lexeme t) = position lx' - start lx'
              \<and> (CHR 0x0A \<notin> set (take (position lx') src) \<longrightarrow>
                   column t = spec_column src (start lx'))"
      using l len col by simp
  qed
  show ?thesis
    using n(3) b m e by blast
qed

theorem token_text_and_column_witness:
  "nextToken (lexer_after 1 (new_Lexer ''say x'' ''script.story'')) =
     (Token IDENTIFIER ''x'' 1 5,
      \<lparr>source = ''say x'', filename = ''script.story'', position = 5, start = 4,
        cur_line = 1, cur_column = 6\<rparr>)
   \<and> type (Token IDENTIFIER ''x'' 1 5) \<noteq> UNKNOWN
   \<and> CHR 0x0A \<notin> set (take 5 ''say x'')
   \<and> lexeme (Token IDENTIFIER ''x'' 1 5) = substr ''say x'' 4 (5 - 4)
   \<and> column (Token IDENTIFIER ''x'' 1 5) = spec_column ''say x'' 4"
proof -
  have h: "nextToken (lexer_after 1 (new_Lexer ''say x'' ''script.story'')) =
     (Token IDENTIFIER ''x'' 1 5,
      \<lparr>source = ''say x'', filename = ''script.story'', position = 5, start = 4,
        cur_line = 1, cur_column = 6\<rparr>)"
    by code_simp
  have n: "CHR 0x0A \<notin> set (take 5 ''say x'')"
    by code_simp
  show ?thesis
    using token_text_and_column [OF h] h n by simp
qed

text \<open>
  The claim as stated fails in three places.  The text of a lex-error token is a
  message, not the character read, and its column is the one after that character.
  After a newline the column counter is one too high, so the identifier at the start
  of line 2 gets column 2.  A string that spans two lines gets the line of its end and
  the column \<open>-1\<close>.
\<close>

theorem token_text_and_column_counterexample:
  "nextToken (new_Lexer ''%'' ''script.story'') =
     (Token UNKNOWN ''Unexpected character.'' 1 2,
      \<lparr>source = ''%'', filename = ''script.story'', position = 1, start = 0,
        cur_line = 1, cur_column = 2\<rparr>)
   \<and> substr ''%'' 0 (1 - 0) = ''%'' \<and> spec_column ''%'' 0 = 1
   \<and> nextToken (lexer_after 1 (new_Lexer [CHR ''a'', CHR 0x0A, CHR ''b''] ''script.story'')) =
     (Token IDENTIFIER ''b'' 2 2,
      \<lparr>source = [CHR ''a'', CHR 0x0A, CHR ''b''], filename = ''script.story'', position = 3,
        start = 2, cur_line = 2, cur_column = 3\<rparr>)
   \<and> spec_column [CHR ''a'', CHR 0x0A, CHR ''b''] 2 = 1
   \<and> nextToken (new_Lexer [CHR 0x22, CHR ''a'', CHR 0x0A, CHR ''b'', CHR 0x22] ''script.story'') =
     (Token STRING [CHR 0x22, CHR ''a'', CHR 0x0A, CHR ''b'', CHR 0x22] 2 (- 1),
      \<lparr>source = [CHR 0x22, CHR ''a'', CHR 0x0A, CHR ''b'', CHR 0x22],
        filename = ''script.story'', position = 5, start = 0, cur_line = 2, cur_column = 4\<rparr>)
   \<and> spec_column [CHR 0x22, CHR ''a'', CHR 0x0A, CHR ''b'', CHR 0x22] 0 = 1"
  by code_simp

section \<open>Properties of the parser\<close>

subsection \<open>More fuel changes no result\<close>

lemma fuel_le_refl [simp]: "fuel_le a a"
  by (simp add: fuel_le_def)

lemma fuel_le_None [simp]: "fuel_le None a"
  by (simp add: fuel_le_def)

lemma fuel_le_Some: "fuel_le a b \<Longrightarrow> a = Some r \<Longrightarrow> b = Some r"
  by (auto simp: fuel_le_def)

lemma and_then_mono:
  assumes "fuel_le m m'" "\<And>x q. fuel_le (f x q) (g x q)"
  shows "fuel_le (and_then m f) (and_then m' g)"
proof (cases m)
  case None
  then show ?thesis by (simp add: and_then_def)
next
  case (Some r)
  then have "m' = Some r" using assms(1) by (simp add: fuel_le_def)
  then show ?thesis using Some assms(2) by (cases r) (simp_all add: and_then_def)
qed

lemma parsePrimary_mono:
  assumes pe: "\<And>q. fuel_le (pe q) (pe' q)" and le: "n \<le> n'"
  shows "fuel_le (parsePrimary pe n p) (parsePrimary pe' n' p)"
proof (cases n)
  case 0
  then show ?thesis by simp
next
  case (Suc k)
  then obtain k' where k': "n' = Suc k'" "k \<le> k'" using le by (cases n') auto
  show ?thesis
    unfolding Suc k' using pe 
    by (auto simp: Let_def split: prod.splits option.splits intro!: and_then_mono)
qed

lemma finishCall_loop_mono:
  assumes pe: "\<And>q. fuel_le (pe q) (pe' q)" and le: "n \<le> n'"
  shows "fuel_le (finishCall_loop pe n arguments p) (finishCall_loop pe' n' arguments p)"
  using le
proof (induction n arbitrary: n' arguments p)
  case 0
  then show ?case by simp
next
  case (Suc k)
  then obtain k' where k': "n' = Suc k'" "k \<le> k'" by (cases n') auto
  show ?case
    unfolding k' using pe Suc.IH [OF k'(2)] 
    by (auto simp: Let_def split: prod.splits option.splits intro!: and_then_mono)
qed

lemma finishCall_mono:
  assumes pe: "\<And>q. fuel_le (pe q) (pe' q)" and le: "n \<le> n'"
  shows "fuel_le (finishCall pe n callee p) (finishCall pe' n' callee p)"
proof (cases n)
  case 0
  then show ?thesis by simp
next
  case (Suc k)
  then obtain k' where k': "n' = Suc k'" "k \<le> k'" using le by (cases n') auto
  show ?thesis
    unfolding Suc k' using pe finishCall_loop_mono [OF pe k'(2)]
    by (auto simp: Let_def split: prod.splits option.splits intro!: and_then_mono)
qed

lemma parseCall_loop_mono:
  assumes pe: "\<And>q. fuel_le (pe q) (pe' q)" and le: "n \<le> n'"
  shows "fuel_le (parseCall_loop pe n expr p) (parseCall_loop pe' n' expr p)"
  using le
proof (induction n arbitrary: n' expr p)
  case 0
  then show ?case by simp
next
  case (Suc k)
  then obtain k' where k': "n' = Suc k'" "k \<le> k'" by (cases n') auto
  show ?case
    unfolding k' using pe Suc.IH [OF k'(2)] finishCall_mono [OF pe k'(2)]
    by (auto simp: Let_def split: prod.splits option.splits intro!: and_then_mono)
qed

lemma parseCall_mono:
  assumes pe: "\<And>q. fuel_le (pe q) (pe' q)" and le: "n \<le> n'"
  shows "fuel_le (parseCall pe n p) (parseCall pe' n' p)"
proof (cases n)
  case 0
  then show ?thesis by simp
next
  case (Suc k)
  then obtain k' where k': "n' = Suc k'" "k \<le> k'" using le by (cases n') auto
  show ?thesis
    unfolding Suc k' using pe parsePrimary_mono [OF pe k'(2)] parseCall_loop_mono [OF pe k'(2)]
    by (auto simp: Let_def split: prod.splits option.splits intro!: and_then_mono)
qed

lemma parseUnary_mono:
  assumes pe: "\<And>q. fuel_le (pe q) (pe' q)" and le: "n \<le> n'"
  shows "fuel_le (parseUnary pe n p) (parseUnary pe' n' p)"
  using le
proof (induction n arbitrary: n' p)
  case 0
  then show ?case by simp
next
  case (Suc k)
  then obtain k' where k': "n' = Suc k'" "k \<le> k'" by (cases n') auto
  show ?case
    unfolding k' using pe Suc.IH [OF k'(2)] parseCall_mono [OF pe k'(2)]
    by (auto simp: Let_def split: prod.splits option.splits intro!: and_then_mono)
qed

lemma parseFactor_loop_mono:
  assumes pe: "\<And>q. fuel_le (pe q) (pe' q)" and le: "n \<le> n'"
  shows "fuel_le (parseFactor_loop pe n expr p) (parseFactor_loop pe' n' expr p)"
  using le
proof (induction n arbitrary: n' expr p)
  case 0
  then show ?case by simp
next
  case (Suc k)
  then obtain k' where k': "n' = Suc k'" "k \<le> k'" by (cases n') auto
  show ?case
    unfolding k' using pe Suc.IH [OF k'(2)] parseUnary_mono [OF pe k'(2)]
    by (auto simp: Let_def split: prod.splits option.splits intro!: and_then_mono)
qed

lemma parseFactor_mono:
  assumes pe: "\<And>q. fuel_le (pe q) (pe' q)" and le: "n \<le> n'"
  shows "fuel_le (parseFactor pe n p) (parseFactor pe' n' p)"
proof (cases n)
  case 0
  then show ?thesis by simp
next
  case (Suc k)
  then obtain k' where k': "n' = Suc k'" "k \<le> k'" using le by (cases n') auto
  show ?thesis
    unfolding Suc k' using pe parseUnary_mono [OF pe k'(2)] parseFactor_loop_mono [OF pe k'(2)]
    by (auto simp: Let_def split: prod.splits option.splits intro!: and_then_mono)
qed

lemma parseTerm_loop_mono:
  assumes pe: "\<And>q. fuel_le (pe q) (pe' q)" and le: "n \<le> n'"
  shows "fuel_le (parseTerm_loop pe n expr p) (parseTerm_loop pe' n' expr p)"
  using le
proof (induction n arbitrary: n' expr p)
  case 0
  then show ?case by simp
next
  case (Suc k)
  then obtain k' where k': "n' = Suc k'" "k \<le> k'" by (cases n') auto
  show ?case
    unfolding k' using pe Suc.IH [OF k'(2)] parseFactor_mono [OF pe k'(2)]
    by (auto simp: Let_def split: prod.splits option.splits intro!: and_then_mono)
qed

lemma parseTerm_mono:
  assumes pe: "\<And>q. fuel_le (pe q) (pe' q)" and le: "n \<le> n'"
  shows "fuel_le (parseTerm pe n p) (parseTerm pe' n' p)"
proof (cases n)
  case 0
  then show ?thesis by simp
next
  case (Suc k)
  then obtain k' where k': "n' = Suc k'" "k \<le> k'" using le by (cases n') auto
  show ?thesis
    unfolding Suc k' using pe parseFactor_mono [OF pe k'(2)] parseTerm_loop_mono [OF pe k'(2)]
    by (auto simp: Let_def split: prod.splits option.splits intro!: and_then_mono)
qed

lemma parseComparison_loop_mono:
  assumes pe: "\<And>q. fuel_le (pe q) (pe' q)" and le: "n \<le> n'"
  shows "fuel_le (parseComparison_loop pe n expr p) (parseComparison_loop pe' n' expr p)"
  using le
proof (induction n arbitrary: n' expr p)
  case 0
  then show ?case by simp
next
  case (Suc k)
  then obtain k' where k': "n' = Suc k'" "k \<le> k'" by (cases n') auto
  show ?case
    unfolding k' using pe Suc.IH [OF k'(2)] parseTerm_mono [OF pe k'(2)]
    by (auto simp: Let_def split: prod.splits option.splits intro!: and_then_mono)
qed

lemma parseComparison_mono:
  assumes pe: "\<And>q. fuel_le (pe q) (pe' q)" and le: "n \<le> n'"
  shows "fuel_le (parseComparison pe n p) (parseComparison pe' n' p)"
proof (cases n)
  case 0
  then show ?thesis by simp
next
  case (Suc k)
  then obtain k' where k': "n' = Suc k'" "k \<le> k'" using le by (cases n') auto
  show ?thesis
    unfolding Suc k' using pe parseTerm_mono [OF pe k'(2)] parseComparison_loop_mono [OF pe k'(2)]
    by (auto simp: Let_def split: prod.splits option.splits intro!: and_then_mono)
qed

lemma parseEquality_loop_mono:
  assumes pe: "\<And>q. fuel_le (pe q) (pe' q)" and le: "n \<le> n'"
  shows "fuel_le (parseEquality_loop pe n expr p) (parseEquality_loop pe' n' expr p)"
  using le
proof (induction n arbitrary: n' expr p)
  case 0
  then show ?case by simp
next
  case (Suc k)
  then obtain k' where k': "n' = Suc k'" "k \<le> k'" by (cases n') auto
  show ?case
    unfolding k' using pe Suc.IH [OF k'(2)] parseComparison_mono [OF pe k'(2)]
    by (auto simp: Let_def split: prod.splits option.splits intro!: and_then_mono)
qed

lemma parseEquality_mono:
  assumes pe: "\<And>q. fuel_le (pe q) (pe' q)" and le: "n \<le> n'"
  shows "fuel_le (parseEquality pe n p) (parseEquality pe' n' p)"
proof (cases n)
  case 0
  then show ?thesis by simp
next
  case (Suc k)
  then obtain k' where k': "n' = Suc k'" "k \<le> k'" using le by (cases n') auto
  show ?thesis
    unfolding Suc k' using pe parseComparison_mono [OF pe k'(2)] parseEquality_loop_mono [OF pe k'(2)]
    by (auto simp: Let_def split: prod.splits option.splits intro!: and_then_mono)
qed

lemma parseLogicalAnd_loop_mono:
  assumes pe: "\<And>q. fuel_le (pe q) (pe' q)" and le: "n \<le> n'"
  shows "fuel_le (parseLogicalAnd_loop pe n expr p) (parseLogicalAnd_loop pe' n' expr p)"
  using le
proof (induction n arbitrary: n' expr p)
  case 0
  then show ?case by simp
next
  case (Suc k)
  then obtain k' where k': "n' = Suc k'" "k \<le> k'" by (cases n') auto
  show ?case
    unfolding k' using pe Suc.IH [OF k'(2)] parseEquality_mono [OF pe k'(2)]
    by (auto simp: Let_def split: prod.splits option.splits intro!: and_then_mono)
qed

lemma parseLogicalAnd_mono:
  assumes pe: "\<And>q. fuel_le (pe q) (pe' q)" and le: "n \<le> n'"
  shows "fuel_le (parseLogicalAnd pe n p) (parseLogicalAnd pe' n' p)"
proof (cases n)
  case 0
  then show ?thesis by simp
next
  case (Suc k)
  then obtain k' where k': "n' = Suc k'" "k \<le> k'" using le by (cases n') auto
  show ?thesis
    unfolding Suc k' using pe parseEquality_mono [OF pe k'(2)] parseLogicalAnd_loop_mono [OF pe k'(2)]
    by (auto simp: Let_def split: prod.splits option.splits intro!: and_then_mono)
qed

lemma parseLogicalOr_loop_mono:
  assumes pe: "\<And>q. fuel_le (pe q) (pe' q)" and le: "n \<le> n'"
  shows "fuel_le (parseLogicalOr_loop pe n expr p) (parseLogicalOr_loop pe' n' expr p)"
  using le
proof (induction n arbitrary: n' expr p)
  case 0
  then show ?case by simp
next
  case (Suc k)
  then obtain k' where k': "n' = Suc k'" "k \<le> k'" by (cases n') auto
  show ?case
    unfolding k' using pe Suc.IH [OF k'(2)] parseLogicalAnd_mono [OF pe k'(2)]
    by (auto simp: Let_def split: prod.splits option.splits intro!: and_then_mono)
qed

lemma parseLogicalOr_mono:
  assumes pe: "\<And>q. fuel_le (pe q) (pe' q)" and le: "n \<le> n'"
  shows "fuel_le (parseLogicalOr pe n p) (parseLogicalOr pe' n' p)"
proof (cases n)
  case 0
  then show ?thesis by simp
next
  case (Suc k)
  then obtain k' where k': "n' = Suc k'" "k \<le> k'" using le by (cases n') auto
  show ?thesis
    unfolding Suc k' using pe parseLogicalAnd_mono [OF pe k'(2)] parseLogicalOr_loop_mono [OF pe k'(2)]
    by (auto simp: Let_def split: prod.splits option.splits intro!: and_then_mono)
qed

lemma parseAssignment_mono:
  assumes pe: "\<And>q. fuel_le (pe q) (pe' q)" and le: "n \<le> n'"
  shows "fuel_le (parseAssignment pe n p) (parseAssignment pe' n' p)"
  using le
proof (induction n arbitrary: n' p)
  case 0
  then show ?case by simp
next
  case (Suc k)
  then obtain k' where k': "n' = Suc k'" "k \<le> k'" by (cases n') auto
  show ?case
    unfolding k' using pe Suc.IH [OF k'(2)] parseLogicalOr_mono [OF pe k'(2)]
    by (auto simp: Let_def split: prod.splits option.splits intro!: and_then_mono)
qed

lemma parseExpression_mono:
  assumes le: "n \<le> n'"
  shows "fuel_le (parseExpression n p) (parseExpression n' p)"
  using le
proof (induction n arbitrary: n' p)
  case 0
  then show ?case by simp
next
  case (Suc k)
  then obtain k' where k': "n' = Suc k'" "k \<le> k'" by (cases n') auto
  show ?case
    unfolding k' using parseAssignment_mono [OF Suc.IH [OF k'(2)] k'(2)] by simp
qed

lemma parseVarDeclaration_mono:
  assumes le: "n \<le> n'"
  shows "fuel_le (parseVarDeclaration n p) (parseVarDeclaration n' p)"
proof (cases n)
  case 0
  then show ?thesis by simp
next
  case (Suc k)
  then obtain k' where k': "n' = Suc k'" "k \<le> k'" using le by (cases n') auto
  show ?thesis
    unfolding Suc k' using parseExpression_mono [OF k'(2)]
    by (auto simp: Let_def split: prod.splits option.splits intro!: and_then_mono)
qed

lemma parseBlock_loop_mono:
  assumes pe: "\<And>q. fuel_le (ps q) (ps' q)" and le: "n \<le> n'"
  shows "fuel_le (parseBlock_loop ps n stmts p) (parseBlock_loop ps' n' stmts p)"
  using le
proof (induction n arbitrary: n' stmts p)
  case 0
  then show ?case by simp
next
  case (Suc k)
  then obtain k' where k': "n' = Suc k'" "k \<le> k'" by (cases n') auto
  show ?case
    unfolding k' using pe Suc.IH [OF k'(2)] 
    by (auto simp: Let_def split: prod.splits option.splits intro!: and_then_mono)
qed

lemma parseBlock_mono:
  assumes pe: "\<And>q. fuel_le (ps q) (ps' q)" and le: "n \<le> n'"
  shows "fuel_le (parseBlock ps n p) (parseBlock ps' n' p)"
proof (cases n)
  case 0
  then show ?thesis by simp
next
  case (Suc k)
  then obtain k' where k': "n' = Suc k'" "k \<le> k'" using le by (cases n') auto
  show ?thesis
    unfolding Suc k' using pe parseBlock_loop_mono [OF pe k'(2)]
    by (auto simp: Let_def split: prod.splits option.splits intro!: and_then_mono)
qed

lemma parseIfStatement_mono:
  assumes pe: "\<And>q. fuel_le (ps q) (ps' q)" and le: "n \<le> n'"
  shows "fuel_le (parseIfStatement ps n p) (parseIfStatement ps' n' p)"
proof (cases n)
  case 0
  then show ?thesis by simp
next
  case (Suc k)
  then obtain k' where k': "n' = Suc k'" "k \<le> k'" using le by (cases n') auto
  show ?thesis
    unfolding Suc k' using pe parseExpression_mono [OF k'(2)]
    by (auto simp: Let_def split: prod.splits option.splits intro!: and_then_mono)
qed

lemma parseWhileStatement_mono:
  assumes pe: "\<And>q. fuel_le (ps q) (ps' q)" and le: "n \<le> n'"
  shows "fuel_le (parseWhileStatement ps n p) (parseWhileStatement ps' n' p)"
proof (cases n)
  case 0
  then show ?thesis by simp
next
  case (Suc k)
  then obtain k' where k': "n' = Suc k'" "k \<le> k'" using le by (cases n') auto
  show ?thesis
    unfolding Suc k' using pe parseExpression_mono [OF k'(2)]
    by (auto simp: Let_def split: prod.splits option.splits intro!: and_then_mono)
qed

lemma parseReturnStatement_mono:
  assumes le: "n \<le> n'"
  shows "fuel_le (parseReturnStatement n p) (parseReturnStatement n' p)"
proof (cases n)
  case 0
  then show ?thesis by simp
next
  case (Suc k)
  then obtain k' where k': "n' = Suc k'" "k \<le> k'" using le by (cases n') auto
  show ?thesis
    unfolding Suc k' using parseExpression_mono [OF k'(2)]
    by (auto simp: Let_def split: prod.splits option.splits intro!: and_then_mono)
qed

lemma parseSayStatement_mono:
  assumes le: "n \<le> n'"
  shows "fuel_le (parseSayStatement n p) (parseSayStatement n' p)"
proof (cases n)
  case 0
  then show ?thesis by simp
next
  case (Suc k)
  then obtain k' where k': "n' = Suc k'" "k \<le> k'" using le by (cases n') auto
  show ?thesis
    unfolding Suc k' using parseExpression_mono [OF k'(2)]
    by (auto simp: Let_def split: prod.splits option.splits intro!: and_then_mono)
qed

lemma parseGotoStatement_mono:
  assumes le: "n \<le> n'"
  shows "fuel_le (parseGotoStatement n p) (parseGotoStatement n' p)"
proof (cases n)
  case 0
  then show ?thesis by simp
next
  case (Suc k)
  then obtain k' where k': "n' = Suc k'" "k \<le> k'" using le by (cases n') auto
  show ?thesis
    unfolding Suc k' using parseExpression_mono [OF k'(2)]
    by (auto simp: Let_def split: prod.splits option.splits intro!: and_then_mono)
qed

lemma parseExpressionStatement_mono:
  assumes le: "n \<le> n'"
  shows "fuel_le (parseExpressionStatement n p) (parseExpressionStatement n' p)"
proof (cases n)
  case 0
  then show ?thesis by simp
next
  case (Suc k)
  then obtain k' where k': "n' = Suc k'" "k \<le> k'" using le by (cases n') auto
  show ?thesis
    unfolding Suc k' using parseExpression_mono [OF k'(2)]
    by (auto simp: Let_def split: prod.splits option.splits intro!: and_then_mono)
qed

lemma parseStatement_mono:
  assumes le: "n \<le> n'"
  shows "fuel_le (parseStatement n p) (parseStatement n' p)"
  using le
proof (induction n arbitrary: n' p)
  case 0
  then show ?case by simp
next
  case (Suc k)
  then obtain k' where k': "n' = Suc k'" "k \<le> k'" by (cases n') auto
  note ih = Suc.IH [OF k'(2)]
  show ?case
    unfolding k'
    using parseIfStatement_mono [OF ih k'(2)] parseWhileStatement_mono [OF ih k'(2)]
      parseBlock_mono [OF ih k'(2)] parseVarDeclaration_mono [OF k'(2)]
      parseReturnStatement_mono [OF k'(2)] parseSayStatement_mono [OF k'(2)]
      parseGotoStatement_mono [OF k'(2)] parseExpressionStatement_mono [OF k'(2)]
    by (auto simp: Let_def split: prod.splits)
qed

lemma parseItem_loop_mono:
  assumes le: "n \<le> n'"
  shows "fuel_le (parseItem_loop n properties p) (parseItem_loop n' properties p)"
  using le
proof (induction n arbitrary: n' properties p)
  case 0
  then show ?case by simp
next
  case (Suc k)
  then obtain k' where k': "n' = Suc k'" "k \<le> k'" by (cases n') auto
  show ?case
    unfolding k' using Suc.IH [OF k'(2)] parseExpression_mono [OF k'(2)]
    by (auto simp: Let_def split: prod.splits option.splits intro!: and_then_mono)
qed

lemma parseItem_mono:
  assumes le: "n \<le> n'"
  shows "fuel_le (parseItem n p) (parseItem n' p)"
proof (cases n)
  case 0
  then show ?thesis by simp
next
  case (Suc k)
  then obtain k' where k': "n' = Suc k'" "k \<le> k'" using le by (cases n') auto
  show ?thesis
    unfolding Suc k' using parseItem_loop_mono [OF k'(2)]
    by (auto simp: Let_def split: prod.splits option.splits intro!: and_then_mono)
qed

lemma parseRoom_loop_mono:
  assumes le: "n \<le> n'"
  shows "fuel_le (parseRoom_loop n properties items events p) (parseRoom_loop n' properties items events p)"
  using le
proof (induction n arbitrary: n' properties items events p)
  case 0
  then show ?case by simp
next
  case (Suc k)
  then obtain k' where k': "n' = Suc k'" "k \<le> k'" by (cases n') auto
  show ?case
    unfolding k' using Suc.IH [OF k'(2)] parseExpression_mono [OF k'(2)] parseBlock_mono [OF parseStatement_mono [OF k'(2)] k'(2)] parseItem_mono [OF k'(2)]
    by (auto simp: Let_def split: prod.splits option.splits intro!: and_then_mono)
qed

lemma parseRoom_mono:
  assumes le: "n \<le> n'"
  shows "fuel_le (parseRoom n p) (parseRoom n' p)"
proof (cases n)
  case 0
  then show ?thesis by simp
next
  case (Suc k)
  then obtain k' where k': "n' = Suc k'" "k \<le> k'" using le by (cases n') auto
  show ?thesis
    unfolding Suc k' using parseRoom_loop_mono [OF k'(2)]
    by (auto simp: Let_def split: prod.splits option.splits intro!: and_then_mono)
qed

lemma parseFunction_loop_mono:
  assumes le: "n \<le> n'"
  shows "fuel_le (parseFunction_loop n parameters p) (parseFunction_loop n' parameters p)"
  using le
proof (induction n arbitrary: n' parameters p)
  case 0
  then show ?case by simp
next
  case (Suc k)
  then obtain k' where k': "n' = Suc k'" "k \<le> k'" by (cases n') auto
  show ?case
    unfolding k' using Suc.IH [OF k'(2)] 
    by (auto simp: Let_def split: prod.splits option.splits intro!: and_then_mono)
qed

lemma parseFunction_mono:
  assumes le: "n \<le> n'"
  shows "fuel_le (parseFunction n p) (parseFunction n' p)"
proof (cases n)
  case 0
  then show ?thesis by simp
next
  case (Suc k)
  then obtain k' where k': "n' = Suc k'" "k \<le> k'" using le by (cases n') auto
  show ?thesis
    unfolding Suc k' using parseFunction_loop_mono [OF k'(2)] parseBlock_mono [OF parseStatement_mono [OF k'(2)] k'(2)]
    by (auto simp: Let_def split: prod.splits option.splits intro!: and_then_mono)
qed

lemma synchronize_loop_mono:
  assumes le: "n \<le> n'"
  shows "fuel_le (synchronize_loop n p) (synchronize_loop n' p)"
  using le
proof (induction n arbitrary: n' p)
  case 0
  then show ?case by simp
next
  case (Suc k)
  then obtain k' where k': "n' = Suc k'" "k \<le> k'" by (cases n') auto
  show ?case
    unfolding k' using Suc.IH [OF k'(2)] by simp
qed

lemma synchronize_mono:
  assumes le: "n \<le> n'"
  shows "fuel_le (synchronize n p) (synchronize n' p)"
  using synchronize_loop_mono [OF le] by (simp add: synchronize_def)

lemma parseProgram_try_mono:
  assumes le: "n \<le> n'"
  shows "fuel_le (parseProgram_try n program p) (parseProgram_try n' program p)"
  using parseRoom_mono [OF le] parseFunction_mono [OF le] parseStatement_mono [OF le]
  by (auto simp: parseProgram_try_def Let_def split: prod.splits intro!: and_then_mono)

lemma parseProgram_loop_mono:
  assumes le: "n \<le> n'"
  shows "fuel_le (parseProgram_loop n program p) (parseProgram_loop n' program p)"
  using le
proof (induction n arbitrary: n' program p)
  case 0
  then show ?case by simp
next
  case (Suc k)
  then obtain k' where k': "n' = Suc k'" "k \<le> k'" by (cases n') auto
  show ?case
  proof (cases "parseProgram_try k program p")
    case None
    then show ?thesis unfolding k' by simp
  next
    case (Some r)
    then have t: "parseProgram_try k' program p = Some r"
      using parseProgram_try_mono [OF k'(2), of program p] by (simp add: fuel_le_def)
    show ?thesis
    proof (cases r)
      case (Ok program' q)
      then show ?thesis
        unfolding k' using Some t Suc.IH [OF k'(2)] by simp
    next
      case (Thrown q)
      show ?thesis
      proof (cases "synchronize k q")
        case None
        then show ?thesis unfolding k' using Some t Thrown by simp
      next
        case s: (Some q')
        then have "synchronize k' q = Some q'"
          using synchronize_mono [OF k'(2), of q] by (simp add: fuel_le_def)
        then show ?thesis
          unfolding k' using Some t Thrown s Suc.IH [OF k'(2)] by simp
      qed
    next
      case Crashed
      then show ?thesis unfolding k' using Some t by simp
    qed
  qed
qed

lemma parseProgram_mono:
  assumes le: "n \<le> n'"
  shows "fuel_le (parseProgram n p) (parseProgram n' p)"
proof (cases n)
  case 0
  then show ?thesis by simp
next
  case (Suc k)
  then obtain k' where k': "n' = Suc k'" "k \<le> k'" using le by (cases n') auto
  show ?thesis
    unfolding Suc k' using parseProgram_loop_mono [OF k'(2)] by simp
qed

lemma parse_mono:
  assumes le: "n \<le> n'"
  shows "fuel_le (parse n p) (parse n' p)"
  using parseProgram_mono [OF le] by (simp add: parse_def)


lemma fuel_le_run:
  fixes f :: "nat \<Rightarrow> 'a option"
  assumes "f k = Some r" "\<And>n n'. n \<le> n' \<Longrightarrow> fuel_le (f n) (f n')"
  shows "fuel_le (f n) (Some r)"
proof (cases "n \<le> k")
  case True
  then show ?thesis using assms(2) [of n k] assms(1) by simp
next
  case False
  then have "fuel_le (f k) (f n)" using assms(2) [of k n] by simp
  then show ?thesis using assms(1) by (simp add: fuel_le_def)
qed

lemma parse_enough_fuel: "parse k p = Some r \<Longrightarrow> k \<le> n \<Longrightarrow> parse n p = Some r"
  using parse_mono [of k n p] by (simp add: fuel_le_def)

lemma parseExpression_enough_fuel:
  "parseExpression k p = Some r \<Longrightarrow> k \<le> n \<Longrightarrow> parseExpression n p = Some r"
  using parseExpression_mono [of k n p] by (simp add: fuel_le_def)


subsection \<open>A token that nothing consumes\<close>

lemma Parser_error_frame [simp]:
  "current (Parser_error message p) = current p"
  "lexer (Parser_error message p) = lexer p"
  "previous (Parser_error message p) = previous p"
  by (simp_all add: Parser_error_def)

lemma starts_nothing_error [simp]: "starts_nothing (Parser_error message p) = starts_nothing p"
  by (simp add: starts_nothing_def)

lemma and_then_le:
  assumes "fuel_le m (Some (Ok x q))" "fuel_le (f x q) r"
  shows "fuel_le (and_then m f) r"
  using assms by (auto simp: fuel_le_def and_then_def)

lemma sn_check:
  "starts_nothing p \<Longrightarrow>
     ty \<notin> set [ROOM, ITEM, FUNCTION, ELSE, FOR, WHEN, ENTERED, RPAREN, RBRACE,
                  COLON, COMMA, UNKNOWN, COMMENT] \<Longrightarrow> check ty p = False"
  by (auto simp: starts_nothing_def check_def)

lemma sn_match:
  "starts_nothing p \<Longrightarrow>
     ty \<notin> set [ROOM, ITEM, FUNCTION, ELSE, FOR, WHEN, ENTERED, RPAREN, RBRACE,
                  COLON, COMMA, UNKNOWN, COMMENT] \<Longrightarrow> Parser_match ty p = (False, p)"
  by (simp add: Parser_match_def sn_check)

lemma sn_consume:
  "starts_nothing p \<Longrightarrow>
     ty \<notin> set [ROOM, ITEM, FUNCTION, ELSE, FOR, WHEN, ENTERED, RPAREN, RBRACE,
                  COLON, COMMA, UNKNOWN, COMMENT] \<Longrightarrow>
     consume ty message p = (current p, Parser_error message p)"
  by (simp add: consume_def sn_check Let_def)

lemmas sn_simps = sn_check sn_match sn_consume

lemma parsePrimary_sn:
  "starts_nothing p \<Longrightarrow>
     fuel_le (parsePrimary pe n p) (Some (Ok None (Parser_error ''Expected expression.'' p)))"
  by (cases n) (simp_all add: sn_simps)

lemma parseCall_loop_sn:
  "starts_nothing p \<Longrightarrow> fuel_le (parseCall_loop pe n expr p) (Some (Ok expr p))"
  by (cases n) (simp_all add: sn_simps)

lemma parseCall_sn:
  "starts_nothing p \<Longrightarrow>
     fuel_le (parseCall pe n p) (Some (Ok None (Parser_error ''Expected expression.'' p)))"
  by (cases n) (auto intro!: and_then_le [OF parsePrimary_sn] parseCall_loop_sn)

lemma parseUnary_sn:
  "starts_nothing p \<Longrightarrow>
     fuel_le (parseUnary pe n p) (Some (Ok None (Parser_error ''Expected expression.'' p)))"
  by (cases n) (auto simp: sn_simps intro!: parseCall_sn)

lemma parseFactor_loop_sn:
  "starts_nothing p \<Longrightarrow> fuel_le (parseFactor_loop pe n expr p) (Some (Ok expr p))"
  by (cases n) (simp_all add: sn_simps)

lemma parseFactor_sn:
  "starts_nothing p \<Longrightarrow>
     fuel_le (parseFactor pe n p) (Some (Ok None (Parser_error ''Expected expression.'' p)))"
  by (cases n) (auto intro!: and_then_le [OF parseUnary_sn] parseFactor_loop_sn)

lemma parseTerm_loop_sn:
  "starts_nothing p \<Longrightarrow> fuel_le (parseTerm_loop pe n expr p) (Some (Ok expr p))"
  by (cases n) (simp_all add: sn_simps)

lemma parseTerm_sn:
  "starts_nothing p \<Longrightarrow>
     fuel_le (parseTerm pe n p) (Some (Ok None (Parser_error ''Expected expression.'' p)))"
  by (cases n) (auto intro!: and_then_le [OF parseFactor_sn] parseTerm_loop_sn)

lemma parseComparison_loop_sn:
  "starts_nothing p \<Longrightarrow> fuel_le (parseComparison_loop pe n expr p) (Some (Ok expr p))"
  by (cases n) (simp_all add: sn_simps)

lemma parseComparison_sn:
  "starts_nothing p \<Longrightarrow>
     fuel_le (parseComparison pe n p) (Some (Ok None (Parser_error ''Expected expression.'' p)))"
  by (cases n) (auto intro!: and_then_le [OF parseTerm_sn] parseComparison_loop_sn)

lemma parseEquality_loop_sn:
  "starts_nothing p \<Longrightarrow> fuel_le (parseEquality_loop pe n expr p) (Some (Ok expr p))"
  by (cases n) (simp_all add: sn_simps)

lemma parseEquality_sn:
  "starts_nothing p \<Longrightarrow>
     fuel_le (parseEquality pe n p) (Some (Ok None (Parser_error ''Expected expression.'' p)))"
  by (cases n) (auto intro!: and_then_le [OF parseComparison_sn] parseEquality_loop_sn)

lemma parseLogicalAnd_loop_sn:
  "starts_nothing p \<Longrightarrow> fuel_le (parseLogicalAnd_loop pe n expr p) (Some (Ok expr p))"
  by (cases n) (simp_all add: sn_simps)

lemma parseLogicalAnd_sn:
  "starts_nothing p \<Longrightarrow>
     fuel_le (parseLogicalAnd pe n p) (Some (Ok None (Parser_error ''Expected expression.'' p)))"
  by (cases n) (auto intro!: and_then_le [OF parseEquality_sn] parseLogicalAnd_loop_sn)

lemma parseLogicalOr_loop_sn:
  "starts_nothing p \<Longrightarrow> fuel_le (parseLogicalOr_loop pe n expr p) (Some (Ok expr p))"
  by (cases n) (simp_all add: sn_simps)

lemma parseLogicalOr_sn:
  "starts_nothing p \<Longrightarrow>
     fuel_le (parseLogicalOr pe n p) (Some (Ok None (Parser_error ''Expected expression.'' p)))"
  by (cases n) (auto intro!: and_then_le [OF parseLogicalAnd_sn] parseLogicalOr_loop_sn)

lemma parseAssignment_sn:
  "starts_nothing p \<Longrightarrow>
     fuel_le (parseAssignment pe n p) (Some (Ok None (Parser_error ''Expected expression.'' p)))"
  by (cases n) (auto simp: sn_simps intro!: and_then_le [OF parseLogicalOr_sn])

lemma parseExpression_sn:
  "starts_nothing p \<Longrightarrow>
     fuel_le (parseExpression n p) (Some (Ok None (Parser_error ''Expected expression.'' p)))"
  by (cases n) (auto intro!: parseAssignment_sn)

lemma parseExpressionStatement_sn:
  "starts_nothing p \<Longrightarrow>
     fuel_le (parseExpressionStatement n p)
       (Some (Ok (ExpressionStmt (getCurrentLocation (lexer p)) None) (unparsed p)))"
  by (cases n)
     (auto simp: sn_simps unparsed_def Let_def intro!: and_then_le [OF parseExpression_sn])

lemma parseStatement_sn:
  "starts_nothing p \<Longrightarrow>
     fuel_le (parseStatement n p)
       (Some (Ok (ExpressionStmt (getCurrentLocation (lexer p)) None) (unparsed p)))"
  by (cases n) (auto simp: sn_simps intro!: parseExpressionStatement_sn)

lemma unparsed_frame [simp]:
  "current (unparsed p) = current p" "starts_nothing (unparsed p) = starts_nothing p"
  by (simp_all add: unparsed_def)

lemma parseBlock_loop_never_returns:
  "starts_nothing p \<Longrightarrow> type (current p) \<noteq> RBRACE \<Longrightarrow>
     parseBlock_loop (parseStatement k) n stmts p = None"
proof (induction n arbitrary: stmts p)
  case 0
  then show ?case by simp
next
  case (Suc n)
  have c: "\<not> check RBRACE p" "\<not> check EOF_TOKEN p"
    using Suc.prems sn_check [of p EOF_TOKEN] by (simp_all add: check_def)
  show ?case
  proof (cases "parseStatement k p")
    case None
    then show ?thesis using c by (simp add: and_then_def)
  next
    case (Some r)
    then have "r = Ok (ExpressionStmt (getCurrentLocation (lexer p)) None) (unparsed p)"
      using parseStatement_sn [OF Suc.prems(1), of k] by (simp add: fuel_le_def)
    then show ?thesis
      using c Some Suc.IH [of "unparsed p"] Suc.prems by (simp add: and_then_def)
  qed
qed

lemma parseBlock_never_returns:
  "starts_nothing p \<Longrightarrow> type (current p) \<noteq> RBRACE \<Longrightarrow>
     parseBlock (parseStatement k) n p = None"
  by (cases n) (simp_all add: parseBlock_loop_never_returns and_then_def)

lemma parseProgram_try_sn:
  "starts_nothing p \<Longrightarrow> type (current p) \<noteq> ROOM \<Longrightarrow> type (current p) \<noteq> FUNCTION \<Longrightarrow>
     fuel_le (parseProgram_try n program p)
       (Some (Ok (addStatement (ExpressionStmt (getCurrentLocation (lexer p)) None) program)
                 (unparsed p)))"
  by (auto simp: parseProgram_try_def Parser_match_def check_def
           intro!: and_then_le [OF parseStatement_sn])

lemma parseProgram_loop_never_returns:
  "starts_nothing p \<Longrightarrow> type (current p) \<noteq> ROOM \<Longrightarrow> type (current p) \<noteq> FUNCTION \<Longrightarrow>
     parseProgram_loop n program p = None"
proof (induction n arbitrary: program p)
  case 0
  then show ?case by simp
next
  case (Suc n)
  have c: "\<not> check EOF_TOKEN p"
    using Suc.prems by (simp add: sn_simps)
  show ?case
  proof (cases "parseProgram_try n program p")
    case None
    then show ?thesis using c by simp
  next
    case (Some r)
    then have "r = Ok (addStatement (ExpressionStmt (getCurrentLocation (lexer p)) None) program)
                      (unparsed p)"
      using parseProgram_try_sn [OF Suc.prems, of n program] by (simp add: fuel_le_def)
    then show ?thesis
      using c Some Suc.IH [of "unparsed p"] Suc.prems by simp
  qed
qed

text \<open>One more round of the loop of \<open>parseProgram\<close> before a state from which it never returns.\<close>

lemma parseProgram_loop_step_never_returns:
  assumes "\<not> check EOF_TOKEN p"
    and "\<And>n. fuel_le (parseProgram_try n program p) (Some (Ok program' q))"
    and "\<And>n. parseProgram_loop n program' q = None"
  shows "parseProgram_loop n program p = None"
proof (cases n)
  case 0
  then show ?thesis by simp
next
  case (Suc k)
  show ?thesis
  proof (cases "parseProgram_try k program p")
    case None
    then show ?thesis using Suc assms(1) by simp
  next
    case (Some r)
    then have "r = Ok program' q"
      using assms(2) [of k] by (simp add: fuel_le_def)
    then show ?thesis
      using Suc Some assms(1,3) by simp
  qed
qed

lemma parse_never_returns:
  assumes "\<And>n program. parseProgram_loop n program p = None"
  shows "parse n p = None"
  using assms by (cases n) (simp_all add: parse_def)


subsection \<open>Runs that never return\<close>

lemma parseExpression_run:
  assumes "parseExpression k p = Some r"
  shows "fuel_le (parseExpression n p) (Some r)"
  using fuel_le_run [where f = "\<lambda>n. parseExpression n p", OF assms parseExpression_mono] .

lemma parseSayStatement_sn:
  "starts_nothing p \<Longrightarrow>
     fuel_le (parseSayStatement n p)
       (Some (Ok (SayStmt (getCurrentLocation (lexer p)) None)
                 (Parser_error ''Expected ';' after message.''
                    (Parser_error ''Expected expression.'' p))))"
  by (cases n) (auto simp: sn_simps Let_def intro!: and_then_le [OF parseExpression_sn])

lemma say_statement_sn:
  assumes "type (current p) = SAY" "starts_nothing (Parser_advance p)"
  shows "fuel_le (parseStatement n p)
       (Some (Ok (SayStmt (getCurrentLocation (lexer (Parser_advance p))) None)
                 (Parser_error ''Expected ';' after message.''
                    (Parser_error ''Expected expression.'' (Parser_advance p)))))"
  using assms by (cases n) (auto simp: Parser_match_def check_def intro!: parseSayStatement_sn)


lemma expression_statement_sn:
  assumes "type (current p) \<notin> set [IF, WHILE, VAR, LBRACE, RETURN, SAY, GOTO]"
    and "parseExpression k p = Some (Ok e q)" and "starts_nothing q"
  shows "fuel_le (parseStatement n p)
       (Some (Ok (ExpressionStmt (getCurrentLocation (lexer p)) e)
                 (Parser_error ''Expected ';' after expression.'' q)))"
proof -
  have "fuel_le (parseExpressionStatement m p)
       (Some (Ok (ExpressionStmt (getCurrentLocation (lexer p)) e)
                 (Parser_error ''Expected ';' after expression.'' q)))" for m
    using assms(3)
    by (cases m)
       (auto simp: sn_simps Let_def intro!: and_then_le [OF parseExpression_run [OF assms(2)]])
  then show ?thesis
    using assms(1) by (cases n) (auto simp: Parser_match_def check_def)
qed


lemma statement_then_never_returns:
  assumes "type (current p) \<notin> set [EOF_TOKEN, ROOM, FUNCTION]"
    and "\<And>n. fuel_le (parseStatement n p) (Some (Ok stmt q))"
    and "starts_nothing q" "type (current q) \<noteq> ROOM" "type (current q) \<noteq> FUNCTION"
  shows "parse n p = None"
proof (rule parse_never_returns)
  fix n program
  have m: "Parser_match ROOM p = (False, p)" "Parser_match FUNCTION p = (False, p)"
    and c: "\<not> check EOF_TOKEN p"
    using assms(1) by (simp_all add: Parser_match_def check_def)
  have t: "fuel_le (parseProgram_try m program p) (Some (Ok (addStatement stmt program) q))" for m
    unfolding parseProgram_try_def
    by (simp add: m) (rule and_then_le [OF assms(2)], simp)
  have l: "parseProgram_loop m (addStatement stmt program) q = None" for m
    by (rule parseProgram_loop_never_returns [OF assms(3,4,5)])
  show "parseProgram_loop n program p = None"
    by (rule parseProgram_loop_step_never_returns [OF c t l])
qed

text \<open>
  Claim C1.  On the source \<^verbatim>\<open>say "abc\<close> the second token is the lex-error token
  \<open>Unterminated string.\<close>, and \<^verbatim>\<open>parse()\<close> does not return, whatever the fuel: after the
  \<open>say\<close> statement the lex-error token stays the current token, and every round of the
  loop of \<^verbatim>\<open>parseProgram\<close> adds one more expression statement with a null expression.
\<close>

theorem unterminated_string_never_returns:
  "fst (nextToken (snd (nextToken (new_Lexer ''say \"abc'' ''script.story''))))
     = Token UNKNOWN ''Unterminated string.'' 1 9
   \<and> (\<forall>n. parse n (parser_on ''say \"abc'') = None)"
proof -
  let ?p = "parser_on ''say \"abc''"
  have t: "fst (nextToken (snd (nextToken (new_Lexer ''say \"abc'' ''script.story''))))
     = Token UNKNOWN ''Unterminated string.'' 1 9"
    by code_simp
  have a: "type (current ?p) = SAY"
    by code_simp
  have b: "type (current (Parser_advance ?p)) = UNKNOWN"
    by code_simp
  have sn: "starts_nothing (Parser_advance ?p)"
    using b by (simp add: starts_nothing_def)
  have "parse n ?p = None" for n
    by (rule statement_then_never_returns [OF _ say_statement_sn [OF a sn]])
       (simp_all add: a b sn)
  then show ?thesis
    using t by simp
qed

text \<open>
  Claim C2.  The lexer has no case for \<^verbatim>\<open>%\<close>: the token is the lex-error token
  \<open>Unexpected character.\<close>  On \<^verbatim>\<open>a % b\<close> the expression parser returns the variable
  \<open>a\<close> alone and stops before that token, and \<^verbatim>\<open>parse()\<close> does not return.
\<close>

theorem percent_is_no_operator:
  "fst (nextToken (new_Lexer ''%'' ''script.story'')) = Token UNKNOWN ''Unexpected character.'' 1 2
   \<and> parseExpression 13 (parser_on ''a % b'') =
       Some (Ok
         (Some (VariableExpr (SourceLocation ''script.story'' 1 2) (Token IDENTIFIER ''a'' 1 1)))
         \<lparr>lexer = \<lparr>source = ''a % b'', filename = ''script.story'', position = 3, start = 2,
                    cur_line = 1, cur_column = 4\<rparr>,
          current = Token UNKNOWN ''Unexpected character.'' 1 4,
          previous = Token IDENTIFIER ''a'' 1 1, errorOccurred = False, cerr = []\<rparr>)
   \<and> (\<forall>n. parse n (parser_on ''a % b'') = None)"
proof -
  let ?p = "parser_on ''a % b''"
  let ?q = "\<lparr>lexer = \<lparr>source = ''a % b'', filename = ''script.story'', position = 3, start = 2,
                    cur_line = 1, cur_column = 4\<rparr>,
          current = Token UNKNOWN ''Unexpected character.'' 1 4,
          previous = Token IDENTIFIER ''a'' 1 1, errorOccurred = False, cerr = []\<rparr>"
  have t: "fst (nextToken (new_Lexer ''%'' ''script.story''))
             = Token UNKNOWN ''Unexpected character.'' 1 2"
    by code_simp
  have a: "type (current ?p) = IDENTIFIER"
    by code_simp
  have e: "parseExpression 13 ?p =
       Some (Ok
         (Some (VariableExpr (SourceLocation ''script.story'' 1 2) (Token IDENTIFIER ''a'' 1 1)))
         ?q)"
    by code_simp
  have sn: "starts_nothing ?q"
    by (simp add: starts_nothing_def)
  have "parse n ?p = None" for n
    by (rule statement_then_never_returns [OF _ expression_statement_sn [OF _ e sn]])
       (simp_all add: a sn)
  then show ?thesis
    using t e by simp
qed

lemma parseItem_run:
  assumes "parseItem k p = Some r"
  shows "fuel_le (parseItem n p) (Some r)"
  using fuel_le_run [where f = "\<lambda>n. parseItem n p", OF assms parseItem_mono] .

lemma and_then_None:
  assumes "fuel_le m (Some (Ok x q))" "f x q = None"
  shows "and_then m f = None"
  using assms by (auto simp: fuel_le_def and_then_def)

lemma room_when_entered_never_returns:
  assumes "type (current p) = WHEN" "type (current (Parser_advance p)) = ENTERED"
  shows "parseRoom_loop n properties items events p = None"
proof (cases n)
  case 0
  then show ?thesis by simp
next
  case (Suc m)
  let ?q = "Parser_error ''Expected event type after 'when'.'' (Parser_advance p)"
  have sn: "starts_nothing ?q" "type (current ?q) \<noteq> RBRACE"
    using assms(2) by (simp_all add: starts_nothing_def)
  have "parseBlock (parseStatement m) m ?q = None"
    by (rule parseBlock_never_returns [OF sn])
  then show ?thesis
    using Suc assms
    by (simp add: check_def Parser_match_def consume_def Let_def and_then_def)
qed

lemma room_property_step:
  assumes "type (current p) = IDENTIFIER" "type (current (Parser_advance p)) = COLON"
    and "parseExpression k (Parser_advance (Parser_advance p)) = Some (Ok v q)"
    and "type (current q) = SEMICOLON"
    and "\<And>n properties. parseRoom_loop n properties items events (Parser_advance q) = None"
  shows "parseRoom_loop n properties items events p = None"
proof (cases n)
  case 0
  then show ?thesis by simp
next
  case (Suc m)
  have "and_then (parseExpression m (Parser_advance (Parser_advance p)))
          (\<lambda>v p. let (t, p) = consume SEMICOLON ''Expected ';' after property value.'' p
                  in parseRoom_loop m (properties @ [(nm, v)]) items events p)
        = None" for nm
    using assms(4,5)
    by (intro and_then_None [OF parseExpression_run [OF assms(3)]])
       (simp add: consume_def check_def Let_def)
  then show ?thesis
    using Suc assms(1,2)
    by (simp add: check_def Parser_match_def consume_def Let_def)
qed

lemma room_item_step:
  assumes "type (current p) = ITEM"
    and "parseItem k (Parser_advance p) = Some (Ok item q)"
    and "\<And>n items. parseRoom_loop n properties items events q = None"
  shows "parseRoom_loop n properties items events p = None"
proof (cases n)
  case 0
  then show ?thesis by simp
next
  case (Suc m)
  have "and_then (parseItem m (Parser_advance p))
          (\<lambda>item p. parseRoom_loop m properties (items @ [item]) events p) = None"
    using assms(3) by (intro and_then_None [OF parseItem_run [OF assms(2)]]) simp
  then show ?thesis
    using Suc assms(1) by (simp add: check_def Parser_match_def)
qed

lemma parseRoom_never_returns:
  assumes "type (current p) = IDENTIFIER" "type (current (Parser_advance p)) = LBRACE"
    and "\<And>n. parseRoom_loop n [] [] [] (Parser_advance (Parser_advance p)) = None"
  shows "parseRoom n p = None"
  using assms by (cases n) (simp_all add: check_def consume_def Let_def and_then_def)

lemma room_never_returns:
  assumes "type (current p) = ROOM" "\<And>n. parseRoom n (Parser_advance p) = None"
  shows "parse n p = None"
proof (rule parse_never_returns)
  fix n program
  have "parseProgram_try m program p = None" for m
    using assms by (simp add: parseProgram_try_def Parser_match_def check_def and_then_def)
  then show "parseProgram_loop n program p = None"
    using assms(1) by (cases n) (simp_all add: check_def)
qed

text \<open>
  Claim C3.  \<open>entered\<close> is a keyword, so after \<^verbatim>\<open>when\<close> the identifier that \<^verbatim>\<open>parseRoom\<close>
  asks for is not there; the token is not consumed, \<^verbatim>\<open>parseBlock\<close> runs on it, and
  \<^verbatim>\<open>parse()\<close> does not return, whatever the fuel.  With an identifier as the event name
  the run returns, with the error flag set: \<^verbatim>\<open>parseBlock\<close> is entered before the opening
  brace, takes the brace of the room as the end of its block, and \<^verbatim>\<open>parseRoom\<close> then
  misses that brace.
\<close>

theorem room_with_when_entered_never_returns:
  "fst (nextToken (new_Lexer ''entered'' ''script.story'')) = Token ENTERED ''entered'' 1 1
   \<and> (\<forall>n. parse n (parser_on ''room A { d: 1; item T { } when entered { say \"hi\"; } }'') = None)
   \<and> (case parse 20 (parser_on ''room A { d: 1; item T { } when x { say \"hi\"; } }'') of
        Some (Ok program p) \<Rightarrow>
          hadError p \<and> cerr p = [(1, 49, ''Expected '}' after room body.'')]
      | _ \<Rightarrow> False)"
proof -
  let ?src = "''room A { d: 1; item T { } when entered { say \"hi\"; } }''"
  let ?p = "parser_on ?src"
  let ?p3 = "Parser_advance (Parser_advance (Parser_advance ?p))"
  let ?q = "\<lparr>lexer = \<lparr>source = ?src, filename = ''script.story'', position = 14, start = 13,
                      cur_line = 1, cur_column = 15\<rparr>,
            current = Token SEMICOLON '';'' 1 14, previous = Token NUMBER ''1'' 1 13,
            errorOccurred = False, cerr = []\<rparr>"
  let ?r = "\<lparr>lexer = \<lparr>source = ?src, filename = ''script.story'', position = 30, start = 26,
                      cur_line = 1, cur_column = 31\<rparr>,
            current = Token WHEN ''when'' 1 27, previous = Token RBRACE ''}'' 1 25,
            errorOccurred = False, cerr = []\<rparr>"
  have t: "fst (nextToken (new_Lexer ''entered'' ''script.story'')) = Token ENTERED ''entered'' 1 1"
    by code_simp
  have x: "(case parse 20 (parser_on ''room A { d: 1; item T { } when x { say \"hi\"; } }'') of
        Some (Ok program p) \<Rightarrow>
          hadError p \<and> cerr p = [(1, 49, ''Expected '}' after room body.'')]
      | _ \<Rightarrow> False)"
    by code_simp
  have a0: "type (current ?p) = ROOM"
    by code_simp
  have a1: "type (current (Parser_advance ?p)) = IDENTIFIER"
    by code_simp
  have a2: "type (current (Parser_advance (Parser_advance ?p))) = LBRACE"
    by code_simp
  have a3: "type (current ?p3) = IDENTIFIER"
    by code_simp
  have a4: "type (current (Parser_advance ?p3)) = COLON"
    by code_simp
  have e: "parseExpression 13 (Parser_advance (Parser_advance ?p3)) =
             Some (Ok (Some (LiteralExpr (SourceLocation ''script.story'' 1 14) (Double 1))) ?q)"
    by code_simp
  have a5: "type (current (Parser_advance ?q)) = ITEM"
    by code_simp
  have i: "parseItem 2 (Parser_advance (Parser_advance ?q)) =
             Some (Ok (Item (SourceLocation ''script.story'' 1 22) (Token IDENTIFIER ''T'' 1 21) [])
                      ?r)"
    by code_simp
  have a6: "type (current (Parser_advance ?r)) = ENTERED"
    by code_simp
  have w: "parseRoom_loop n properties items events ?r = None" for n properties items events
    by (rule room_when_entered_never_returns [OF _ a6]) simp
  have it: "parseRoom_loop n properties items events (Parser_advance ?q) = None"
    for n properties items events
    by (rule room_item_step [OF a5 i w])
  have pr: "parseRoom_loop n properties items events ?p3 = None" for n properties items events
    by (rule room_property_step [OF a3 a4 e _ it]) simp
  have "parseRoom n (Parser_advance ?p) = None" for n
    by (rule parseRoom_never_returns [OF a1 a2 pr])
  then have "parse n ?p = None" for n
    by (rule room_never_returns [OF a0])
  then show ?thesis
    using t x by simp
qed

subsection \<open>Precedence and associativity\<close>

text \<open>
  Claim C7.  With enough fuel (13 units or more), parsing the expression source
  \<^verbatim>\<open>1 + 2 * 3\<close> returns \<open>Binary(+, Literal 1, Binary( *, Literal 2, Literal 3))\<close>, and
  parsing \<^verbatim>\<open>a = b = 1\<close> returns \<open>Binary(=, a, Binary(=, b, Literal 1))\<close>; both runs end
  at the end of input with no error recorded.
\<close>

theorem precedence_and_assignment:
  assumes "13 \<le> n"
  shows "parseExpression n (parser_on ''1 + 2 * 3'') =
           Some (Ok
             (Some (BinaryExpr (SourceLocation ''script.story'' 1 2)
                (Some (LiteralExpr (SourceLocation ''script.story'' 1 2) (Double 1)))
                (Token PLUS ''+'' 1 3)
                (Some (BinaryExpr (SourceLocation ''script.story'' 1 6)
                   (Some (LiteralExpr (SourceLocation ''script.story'' 1 6) (Double 2)))
                   (Token MULTIPLY ''*'' 1 7)
                   (Some (LiteralExpr (SourceLocation ''script.story'' 1 10) (Double 3)))))))
             \<lparr>lexer = \<lparr>source = ''1 + 2 * 3'', filename = ''script.story'', position = 9,
                        start = 9, cur_line = 1, cur_column = 10\<rparr>,
              current = Token EOF_TOKEN [] 1 10, previous = Token NUMBER ''3'' 1 9,
              errorOccurred = False, cerr = []\<rparr>)
         \<and> parseExpression n (parser_on ''a = b = 1'') =
           Some (Ok
             (Some (BinaryExpr (SourceLocation ''script.story'' 1 2)
                (Some (VariableExpr (SourceLocation ''script.story'' 1 2)
                         (Token IDENTIFIER ''a'' 1 1)))
                (Token ASSIGN ''='' 1 3)
                (Some (BinaryExpr (SourceLocation ''script.story'' 1 6)
                   (Some (VariableExpr (SourceLocation ''script.story'' 1 6)
                            (Token IDENTIFIER ''b'' 1 5)))
                   (Token ASSIGN ''='' 1 7)
                   (Some (LiteralExpr (SourceLocation ''script.story'' 1 10) (Double 1)))))))
             \<lparr>lexer = \<lparr>source = ''a = b = 1'', filename = ''script.story'', position = 9,
                        start = 9, cur_line = 1, cur_column = 10\<rparr>,
              current = Token EOF_TOKEN [] 1 10, previous = Token NUMBER ''1'' 1 9,
              errorOccurred = False, cerr = []\<rparr>)"
  by (intro conjI; rule parseExpression_enough_fuel [OF _ assms]; code_simp)

theorem precedence_and_assignment_witness:
  "(13::nat) \<le> 13
   \<and> (case parseExpression 13 (parser_on ''1 + 2 * 3'') of
        Some (Ok (Some (BinaryExpr _ (Some (LiteralExpr _ (Double x))) op1
                (Some (BinaryExpr _ (Some (LiteralExpr _ (Double y))) op2
                   (Some (LiteralExpr _ (Double z))))))) p) \<Rightarrow>
          x = 1 \<and> type op1 = PLUS \<and> y = 2 \<and> type op2 = MULTIPLY \<and> z = 3 \<and> \<not> hadError p
      | _ \<Rightarrow> False)"
  using precedence_and_assignment [of 13] by (simp add: hadError_def)

subsection \<open>A malformed assignment target\<close>

text \<open>
  Claim C8.  With enough fuel, \<^verbatim>\<open>parse()\<close> on \<^verbatim>\<open>1 = 2;\<close> returns (it does not crash): the
  program holds one statement, the expression statement of the literal 1, which is the
  left-hand side kept as the result; and exactly one line went to the error stream,
  \<open>Invalid assignment target.\<close>
\<close>

theorem invalid_assignment_target:
  assumes "16 \<le> n"
  shows "parse n (parser_on ''1 = 2;'') =
           Some (Ok
             \<lparr>program_location = SourceLocation ''script.story'' 1 2,
              program_rooms = [],
              program_statements =
                [ExpressionStmt (SourceLocation ''script.story'' 1 2)
                   (Some (LiteralExpr (SourceLocation ''script.story'' 1 2) (Double 1)))],
              program_functions = []\<rparr>
             \<lparr>lexer = \<lparr>source = ''1 = 2;'', filename = ''script.story'', position = 6,
                        start = 6, cur_line = 1, cur_column = 7\<rparr>,
              current = Token EOF_TOKEN [] 1 7, previous = Token SEMICOLON '';'' 1 6,
              errorOccurred = True, cerr = [(1, 6, ''Invalid assignment target.'')]\<rparr>)"
  by (rule parse_enough_fuel [OF _ assms]) code_simp

theorem invalid_assignment_target_witness:
  "(16::nat) \<le> 16
   \<and> (case parse 16 (parser_on ''1 = 2;'') of
        Some (Ok program p) \<Rightarrow>
          program_statements program =
            [ExpressionStmt (SourceLocation ''script.story'' 1 2)
               (Some (LiteralExpr (SourceLocation ''script.story'' 1 2) (Double 1)))]
          \<and> map (\<lambda>(l, c, message). message) (cerr p) = [''Invalid assignment target.'']
      | _ \<Rightarrow> False)"
  using invalid_assignment_target [of 16] by simp

subsection \<open>One error, and the next declaration still parsed\<close>

text \<open>
  Claim C9.  With enough fuel, \<^verbatim>\<open>parse()\<close> on \<^verbatim>\<open>var ;  var x = 1;\<close> returns with exactly
  one line on the error stream, \<open>Expected variable name.\<close> at the first semicolon, and
  the program's statements are the malformed declaration (its name is the semicolon
  token that \<^verbatim>\<open>consume\<close> handed back) followed by the \<open>Var\<close> statement of \<open>x\<close> with the
  literal 1 as initializer.
\<close>

theorem error_does_not_cascade:
  assumes "16 \<le> n"
  shows "parse n (parser_on ''var ;  var x = 1;'') =
           Some (Ok
             \<lparr>program_location = SourceLocation ''script.story'' 1 4,
              program_rooms = [],
              program_statements =
                [VarStmt (SourceLocation ''script.story'' 1 6) (Token SEMICOLON '';'' 1 5) None,
                 VarStmt (SourceLocation ''script.story'' 1 13) (Token IDENTIFIER ''x'' 1 12)
                   (Some (LiteralExpr (SourceLocation ''script.story'' 1 17) (Double 1)))],
              program_functions = []\<rparr>
             \<lparr>lexer = \<lparr>source = ''var ;  var x = 1;'', filename = ''script.story'',
                        position = 17, start = 17, cur_line = 1, cur_column = 18\<rparr>,
              current = Token EOF_TOKEN [] 1 18, previous = Token SEMICOLON '';'' 1 17,
              errorOccurred = True, cerr = [(1, 5, ''Expected variable name.'')]\<rparr>)"
  by (rule parse_enough_fuel [OF _ assms]) code_simp

theorem error_does_not_cascade_witness:
  "(16::nat) \<le> 16
   \<and> (case parse 16 (parser_on ''var ;  var x = 1;'') of
        Some (Ok program p) \<Rightarrow>
          length (cerr p) = 1
          \<and> program_statements program ! 1 =
              VarStmt (SourceLocation ''script.story'' 1 13) (Token IDENTIFIER ''x'' 1 12)
                (Some (LiteralExpr (SourceLocation ''script.story'' 1 17) (Double 1)))
      | _ \<Rightarrow> False)"
  using error_does_not_cascade [of 16] by simp

subsection \<open>No expression at the current token\<close>

text \<open>
  Claim C10.  When the current token is none of the six kinds that start a primary
  expression, \<^verbatim>\<open>parsePrimary\<close> returns the null expression and no exception: it has
  written \<open>Expected expression.\<close> to the error stream and set the error flag, and the
  current token and the lexer are as before, so the token is not consumed.  A program
  returned by \<^verbatim>\<open>parse()\<close> can then hold a statement whose expression is null: on the
  source \<^verbatim>\<open>;\<close> it holds the expression statement of the null expression.
\<close>

theorem parsePrimary_no_expression:
  assumes "type (current p) \<notin> set [FALSE, TRUE, NUMBER, STRING, IDENTIFIER, LPAREN]"
    and "15 \<le> m"
  shows "parsePrimary pe (Suc n) p = Some (Ok None (Parser_error ''Expected expression.'' p))
         \<and> current (Parser_error ''Expected expression.'' p) = current p
         \<and> lexer (Parser_error ''Expected expression.'' p) = lexer p
         \<and> hadError (Parser_error ''Expected expression.'' p)
         \<and> cerr (Parser_error ''Expected expression.'' p) =
             cerr p @ [(line (current p), column (current p), ''Expected expression.'')]
         \<and> parse m (parser_on '';'') =
             Some (Ok
               \<lparr>program_location = SourceLocation ''script.story'' 1 2,
                program_rooms = [],
                program_statements = [ExpressionStmt (SourceLocation ''script.story'' 1 2) None],
                program_functions = []\<rparr>
               \<lparr>lexer = \<lparr>source = '';'', filename = ''script.story'', position = 1,
                          start = 1, cur_line = 1, cur_column = 2\<rparr>,
                current = Token EOF_TOKEN [] 1 2, previous = Token SEMICOLON '';'' 1 1,
                errorOccurred = True, cerr = [(1, 1, ''Expected expression.'')]\<rparr>)"
proof -
  have "parsePrimary pe (Suc n) p = Some (Ok None (Parser_error ''Expected expression.'' p))"
    using assms(1) by (simp add: Parser_match_def check_def)
  moreover have "parse m (parser_on '';'') =
             Some (Ok
               \<lparr>program_location = SourceLocation ''script.story'' 1 2,
                program_rooms = [],
                program_statements = [ExpressionStmt (SourceLocation ''script.story'' 1 2) None],
                program_functions = []\<rparr>
               \<lparr>lexer = \<lparr>source = '';'', filename = ''script.story'', position = 1,
                          start = 1, cur_line = 1, cur_column = 2\<rparr>,
                current = Token EOF_TOKEN [] 1 2, previous = Token SEMICOLON '';'' 1 1,
                errorOccurred = True, cerr = [(1, 1, ''Expected expression.'')]\<rparr>)"
    by (rule parse_enough_fuel [OF _ assms(2)]) code_simp
  ultimately show ?thesis
    by (simp add: Parser_error_def hadError_def)
qed

theorem parsePrimary_no_expression_witness:
  "type (current (parser_on '')'')) \<notin> set [FALSE, TRUE, NUMBER, STRING, IDENTIFIER, LPAREN]
   \<and> (15::nat) \<le> 15
   \<and> parsePrimary (parseExpression 0) (Suc 0) (parser_on '')'') =
       Some (Ok None
         \<lparr>lexer = \<lparr>source = '')'', filename = ''script.story'', position = 1, start = 0,
                    cur_line = 1, cur_column = 2\<rparr>,
          current = Token RPAREN '')'' 1 1, previous = Token UNKNOWN [] 0 0,
          errorOccurred = True, cerr = [(1, 1, ''Expected expression.'')]\<rparr>)"
proof -
  have h: "type (current (parser_on '')'')) \<notin> set [FALSE, TRUE, NUMBER, STRING, IDENTIFIER, LPAREN]"
    by code_simp
  have v: "Parser_error ''Expected expression.'' (parser_on '')'') =
         \<lparr>lexer = \<lparr>source = '')'', filename = ''script.story'', position = 1, start = 0,
                    cur_line = 1, cur_column = 2\<rparr>,
          current = Token RPAREN '')'' 1 1, previous = Token UNKNOWN [] 0 0,
          errorOccurred = True, cerr = [(1, 1, ''Expected expression.'')]\<rparr>"
    by code_simp
  show ?thesis
    using h v parsePrimary_no_expression [OF h, of 15 "parseExpression 0" 0] by simp
qed

end
